theory Spec2Isabelle
  imports Complex_Main "HOL-Library.AList" "HOL-Library.Multiset"
begin

section \<open>Python strings, integers and dictionaries\<close>

text \<open>
  A Python \<open>str\<close> is modelled as a \<^typ>\<open>string\<close>, one \<^typ>\<open>char\<close> per character, so
  \<^const>\<open>length\<close> is Python's \<open>len\<close>. The model covers ASCII text: the whitespace test and
  \<open>upper\<close> below are the ASCII parts of Python's, and the bullet U+2022 that
  \<open>generate_alternative_queries\<close> also strips has no \<^typ>\<open>char\<close>, so it cannot occur in a
  modelled string. The two fixed messages of \<open>chat.py\<close> with a character outside ASCII
  spell it by its UTF-8 bytes. Python's \<open>int\<close> is \<^typ>\<open>int\<close>, a similarity score (a
  float that is only ever compared) is a \<^typ>\<open>real\<close>.
\<close>

definition is_space :: "char \<Rightarrow> bool" where
  "is_space c = (let n = (of_char c :: nat) in (9 \<le> n \<and> n \<le> 13) \<or> (28 \<le> n \<and> n \<le> 32))"

definition is_digit :: "char \<Rightarrow> bool" where
  "is_digit c = (let n = (of_char c :: nat) in 48 \<le> n \<and> n \<le> 57)"

definition is_word_char :: "char \<Rightarrow> bool" where
  "is_word_char c = (let n = (of_char c :: nat) in
     (48 \<le> n \<and> n \<le> 57) \<or> (65 \<le> n \<and> n \<le> 90) \<or> n = 95 \<or> (97 \<le> n \<and> n \<le> 122))"

definition strip_with :: "(char \<Rightarrow> bool) \<Rightarrow> string \<Rightarrow> string" where
  "strip_with p s = rev (dropWhile p (rev (dropWhile p s)))"

text \<open>\<open>s.strip()\<close> and \<open>s.strip(chars)\<close>.\<close>

definition strip :: "string \<Rightarrow> string" where
  "strip s = strip_with is_space s"

definition strip_chars :: "string \<Rightarrow> string \<Rightarrow> string" where
  "strip_chars cs s = strip_with (\<lambda>c. c \<in> set cs) s"

definition upper_char :: "char \<Rightarrow> char" where
  "upper_char c =
     (case map_of (zip ''abcdefghijklmnopqrstuvwxyz'' ''ABCDEFGHIJKLMNOPQRSTUVWXYZ'') c of
        None \<Rightarrow> c | Some u \<Rightarrow> u)"

definition upper :: "string \<Rightarrow> string" where
  "upper s = map upper_char s"

text \<open>\<open>s.split(sep)\<close> for a one-character separator: never empty, \<open>"".split(sep) == [""]\<close>.\<close>

fun split_on :: "char \<Rightarrow> string \<Rightarrow> string list" where
  "split_on sep [] = [[]]"
| "split_on sep (c # s) =
     (if c = sep then [] # split_on sep s
      else (case split_on sep s of [] \<Rightarrow> [[c]] | w # ws \<Rightarrow> (c # w) # ws))"

text \<open>\<open>s.rsplit(sep, 1)[0]\<close>: the text before the last separator, or all of \<open>s\<close> without one.\<close>

definition rsplit1_head :: "char \<Rightarrow> string \<Rightarrow> string" where
  "rsplit1_head sep s =
     (if sep \<in> set s then rev (tl (dropWhile (\<lambda>c. c \<noteq> sep) (rev s))) else s)"

text \<open>\<open>sep.join(parts)\<close>.\<close>

fun join :: "string \<Rightarrow> string list \<Rightarrow> string" where
  "join sep [] = []"
| "join sep [p] = p"
| "join sep (p # q # ps) = p @ sep @ join sep (q # ps)"

text \<open>\<open>xs[:k]\<close>: a negative \<open>k\<close> counts from the end.\<close>

definition slice_to :: "int \<Rightarrow> 'a list \<Rightarrow> 'a list" where
  "slice_to k xs = (if k < 0 then take (nat (int (length xs) + k)) xs else take (nat k) xs)"

text \<open>\<open>str(n)\<close> for an \<open>int\<close>, and \<open>int(s)\<close> for a string of digits.\<close>

definition digit_char :: "nat \<Rightarrow> char" where
  "digit_char d = ''0123456789'' ! d"

function str_nat :: "nat \<Rightarrow> string" where
  "str_nat n = (if n < 10 then [digit_char n] else str_nat (n div 10) @ [digit_char (n mod 10)])"
  by pat_completeness auto
termination
  by (relation "measure id") auto

declare str_nat.simps [simp del]

definition str_int :: "int \<Rightarrow> string" where
  "str_int i = (if i < 0 then CHR ''-'' # str_nat (nat (- i)) else str_nat (nat i))"

definition int_of_digits :: "string \<Rightarrow> nat" where
  "int_of_digits s = foldl (\<lambda>a c. 10 * a + (of_char c - 48)) 0 s"

text \<open>
  A \<open>dict\<close> keeps its keys in insertion order and \<open>d[k] = v\<close> on a present key replaces
  the value in place: an association list under \<^const>\<open>AList.update\<close>.
  \<open>k in d\<close> is \<^term>\<open>map_of d k \<noteq> None\<close>, \<open>d.values()\<close> is \<^term>\<open>map snd d\<close>.
\<close>

type_synonym ('k, 'v) dict = "('k \<times> 'v) list"

definition dict_get :: "('k, 'v) dict \<Rightarrow> 'k \<Rightarrow> 'v \<Rightarrow> 'v" where
  "dict_get d k dflt = (case map_of d k of None \<Rightarrow> dflt | Some v \<Rightarrow> v)"

section \<open>Ingestion: \<open>ingest.py\<close>\<close>

subsection \<open>Metadata sanitization\<close>

text \<open>
  The values a metadata mapping read from JSON (or built by \<open>normalize_docs\<close>) can hold.
  \<open>PObj\<close> stands for any other object.
\<close>

datatype pyval =
    PNone
  | PBool bool
  | PInt int
  | PFloat real
  | PStr string
  | PList "pyval list"
  | PDict "(string \<times> pyval) list"
  | PObj string







subsection \<open>Chunk ids\<close>

text \<open>
  \<open>hashlib.md5(text.encode()).hexdigest()\<close> is the parameter \<open>md5_hexdigest\<close>: the digest
  algorithm is a library's, only its first eight characters enter the id.
\<close>

definition generate_doc_id :: "(string \<Rightarrow> string) \<Rightarrow> string \<Rightarrow> int \<Rightarrow> string \<Rightarrow> string" where
  "generate_doc_id md5_hexdigest filename index text_body =
     (let content_hash = take 8 (md5_hexdigest text_body)
      in filename @ ''___'' @ str_int index @ ''___'' @ content_hash)"

text \<open>
  The id assignment of \<open>upsert_to_pinecone\<close>: the vector at position \<open>idx\<close> of the file
  (batch offset \<open>i\<close> plus position \<open>j\<close> in the batch) gets the id of
  \<open>metadatas[idx].get("text", "")\<close>; the vector and its metadata travel with it.
  \<open>ingest_json\<close> passes one embedding and one sanitized metadata mapping per chunk,
  and the \<open>text\<close> of a sanitized mapping is a string.
\<close>

definition prepare_vectors ::
  "(string \<Rightarrow> string) \<Rightarrow> string \<Rightarrow> 'vec list \<Rightarrow> (string, pyval) dict list
   \<Rightarrow> (string \<times> 'vec \<times> (string, pyval) dict) list" where
  "prepare_vectors md5_hexdigest filename embeddings metadatas =
     map (\<lambda>(idx, vec, meta).
            (generate_doc_id md5_hexdigest filename (int idx)
               (case map_of meta ''text'' of Some (PStr t) \<Rightarrow> t | _ \<Rightarrow> []), vec, meta))
         (zip [0..<length embeddings] (zip embeddings metadatas))"

text \<open>
  \<open>index.upsert\<close> is a call to the vector store, an external service. Its contract, in
  the words of the spec's interface section, is "idempotent overwrite by id": a stored
  id gets the new vector and metadata, a new id is added.
\<close>

definition upsert :: "(string \<times> 'payload) list \<Rightarrow> (string, 'payload) dict \<Rightarrow> (string, 'payload) dict" where
  "upsert vectors store = foldl (\<lambda>st (vid, payload). AList.update vid payload st) store vectors"

section \<open>Query time: \<open>chat.py\<close>\<close>

subsection \<open>Matches, services and the call log\<close>

text \<open>
  A match as the vector index returns it: \<open>m["id"]\<close>, \<open>m["score"]\<close> and
  \<open>m["metadata"]\<close>. The metadata fields the query-time code reads (\<open>text\<close>,
  \<open>index_source\<close>, \<open>schedule\<close>, \<open>appendix\<close>, \<open>part\<close>) are strings, as ingestion
  stores them.
\<close>

record chunk =
  cid :: string
  score :: real
  metadata :: "(string, string) dict"

record chat_request =
  model :: string
  messages :: "(string \<times> string) list"
  temperature :: real
  max_tokens :: nat
  timeout :: nat

text \<open>
  The three network calls of \<open>chat.py\<close>. Every call is appended to a log (\<open>tr\<close>), and a
  service answers from the log so far and the request, so the same request may be
  answered differently each time. \<open>Inl msg\<close> is an exception with \<open>str(e) = msg\<close>, raised
  by the call (a failure, a timeout) or by indexing its response
  (\<open>resp.choices[0]\<close> of a response without choices); \<open>Inr\<close> carries the embedding, the
  matches (\<open>res.get("matches", [])\<close>) or the completion's \<open>message.content\<close>, which the
  client types as an optional string: \<open>None\<close> is a response that has no text.
  \<open>indexes\<close> are the names of the
  module's \<open>indexes\<close> dict in iteration order; \<open>set_order\<close> is the iteration order of a
  Python \<open>set\<close> built from a list, which depends on the string hashes of the process.
\<close>

datatype call =
    EmbedQuery string
  | IndexQuery string "real list" int
  | ChatCreate chat_request

record services =
  embed_query :: "call list \<Rightarrow> string \<Rightarrow> string + real list"
  index_query :: "call list \<Rightarrow> string \<Rightarrow> real list \<Rightarrow> int \<Rightarrow> string + chunk list"
  chat_create :: "call list \<Rightarrow> chat_request \<Rightarrow> string + string option"
  indexes :: "string list"
  set_order :: "string list \<Rightarrow> string list"

definition call_embed :: "services \<Rightarrow> string \<Rightarrow> call list \<Rightarrow> (string + real list) \<times> call list" where
  "call_embed svc q tr = (embed_query svc tr q, tr @ [EmbedQuery q])"

definition call_index ::
  "services \<Rightarrow> string \<Rightarrow> real list \<Rightarrow> int \<Rightarrow> call list \<Rightarrow> (string + chunk list) \<times> call list" where
  "call_index svc name qvec k tr = (index_query svc tr name qvec k, tr @ [IndexQuery name qvec k])"

definition call_chat ::
  "services \<Rightarrow> chat_request \<Rightarrow> call list \<Rightarrow> (string + string option) \<times> call list" where
  "call_chat svc req tr = (chat_create svc tr req, tr @ [ChatCreate req])"

text \<open>
  A completion call that yields no text: it raised, or the content of its response is
  \<open>None\<close>. Where the code goes on with \<open>content.strip()\<close> both end in the \<open>except\<close>
  branch, the second by the \<open>AttributeError\<close> of \<open>None.strip()\<close>.
\<close>

definition no_completion :: "string + string option \<Rightarrow> bool" where
  "no_completion r = (case r of Inl e \<Rightarrow> True | Inr None \<Rightarrow> True | Inr (Some content) \<Rightarrow> False)"

text \<open>What a set iteration order must be: each element of the list once.\<close>

definition valid_set_order :: "(string list \<Rightarrow> string list) \<Rightarrow> bool" where
  "valid_set_order f = (\<forall>xs. distinct (f xs) \<and> set (f xs) = set xs)"

definition newline :: string where
  "newline = [CHR 0x0A]"

subsection \<open>Multi-query expansion\<close>

definition expansion_prompt :: "string \<Rightarrow> int \<Rightarrow> string" where
  "expansion_prompt question n =
     newline @
     ''    Rewrite the following law-related question into '' @ str_int n @ '' different variations:'' @ newline @
     ''    - One in plain layperson language'' @ newline @
     ''    - One in formal legal language'' @ newline @
     ''    - One as a student/research query'' @ newline @
     newline @
     ''    Question: '' @ question @ newline @
     ''    Return only the list of variations, one per line.'' @ newline @
     ''    ''"

definition expansion_request :: "string \<Rightarrow> int \<Rightarrow> chat_request" where
  "expansion_request question n =
     \<lparr>model = ''gpt-4o-mini'', messages = [(''user'', expansion_prompt question n)],
      temperature = 0.7, max_tokens = 200, timeout = 30\<rparr>"

text \<open>
  \<open>[q.strip("-*1234567890. ") for q in content.split("\n") if q.strip()]\<close>, where \<open>*\<close>
  stands for the bullet U+2022.
\<close>

definition parse_variations :: "string \<Rightarrow> string list" where
  "parse_variations content =
     map (strip_chars ''-1234567890. '') (filter (\<lambda>q. strip q \<noteq> []) (split_on (CHR 0x0A) content))"

definition generate_alternative_queries ::
  "services \<Rightarrow> string \<Rightarrow> int \<Rightarrow> call list \<Rightarrow> string list \<times> call list" where
  "generate_alternative_queries svc question n tr =
     (if strip question = [] then ([question], tr)
      else (case call_chat svc (expansion_request question n) tr of
              (Inl e, tr') \<Rightarrow> ([question], tr')
            | (Inr None, tr') \<Rightarrow> ([question], tr')
            | (Inr (Some content), tr') \<Rightarrow>
                (let variations = parse_variations (strip content)
                 in (slice_to (n + 1) (set_order svc (question # variations)), tr'))))"

subsection \<open>Multi-index retrieval\<close>

text \<open>\<open>m["metadata"]["index_source"] = name\<close>.\<close>

definition tag_source :: "string \<Rightarrow> chunk \<Rightarrow> chunk" where
  "tag_source name m = m\<lparr>metadata := AList.update ''index_source'' name (metadata m)\<rparr>"

text \<open>
  \<open>if m["id"] not in expanded_matches or m["score"] > expanded_matches[m["id"]]["score"]:
  expanded_matches[m["id"]] = m\<close>, for a match that is already tagged.
\<close>

definition merge_match :: "(string, chunk) dict \<Rightarrow> chunk \<Rightarrow> (string, chunk) dict" where
  "merge_match d m =
     (case map_of d (cid m) of
        None \<Rightarrow> AList.update (cid m) m d
      | Some old \<Rightarrow> if score m > score old then AList.update (cid m) m d else d)"

text \<open>
  The loop over \<open>indexes.items()\<close> for one embedded query. An exception of a query leaves
  the loop (it is caught outside, around the whole variant); what was merged stays.
\<close>

fun query_indexes ::
  "services \<Rightarrow> real list \<Rightarrow> int \<Rightarrow> string list \<Rightarrow> (string, chunk) dict \<Rightarrow> call list
   \<Rightarrow> (string, chunk) dict \<times> call list" where
  "query_indexes svc qvec k [] d tr = (d, tr)"
| "query_indexes svc qvec k (name # names) d tr =
     (case call_index svc name qvec k tr of
        (Inl e, tr') \<Rightarrow> (d, tr')
      | (Inr matches, tr') \<Rightarrow>
          query_indexes svc qvec k names (foldl merge_match d (map (tag_source name) matches)) tr')"

text \<open>The loop over the expanded queries, each under its own \<open>try\<close>.\<close>

fun retrieve_queries ::
  "services \<Rightarrow> int \<Rightarrow> string list \<Rightarrow> (string, chunk) dict \<Rightarrow> call list
   \<Rightarrow> (string, chunk) dict \<times> call list" where
  "retrieve_queries svc k [] d tr = (d, tr)"
| "retrieve_queries svc k (q # qs) d tr =
     (case call_embed svc q tr of
        (Inl e, tr') \<Rightarrow> retrieve_queries svc k qs d tr'
      | (Inr qvec, tr') \<Rightarrow>
          (case query_indexes svc qvec k (indexes svc) d tr' of
             (d', tr'') \<Rightarrow> retrieve_queries svc k qs d' tr''))"

definition multi_query_retrieve ::
  "services \<Rightarrow> string \<Rightarrow> int \<Rightarrow> call list \<Rightarrow> chunk list \<times> call list" where
  "multi_query_retrieve svc question k tr =
     (if strip question = [] then ([], tr)
      else (case generate_alternative_queries svc question 3 tr of
              (queries, tr1) \<Rightarrow>
                (case retrieve_queries svc k queries [] tr1 of
                   (expanded_matches, tr2) \<Rightarrow> (map snd expanded_matches, tr2))))"

text \<open>
  The matches in the order the loops above hand them to \<^const>\<open>merge_match\<close>: expansion
  order, then index iteration order, then the order of the response. This is what the
  retrieval theorem calls the returned matches.
\<close>

fun index_arrivals ::
  "services \<Rightarrow> real list \<Rightarrow> int \<Rightarrow> string list \<Rightarrow> call list \<Rightarrow> chunk list \<times> call list" where
  "index_arrivals svc qvec k [] tr = ([], tr)"
| "index_arrivals svc qvec k (name # names) tr =
     (case call_index svc name qvec k tr of
        (Inl e, tr') \<Rightarrow> ([], tr')
      | (Inr matches, tr') \<Rightarrow>
          (case index_arrivals svc qvec k names tr' of
             (ms, tr'') \<Rightarrow> (map (tag_source name) matches @ ms, tr'')))"

fun query_arrivals :: "services \<Rightarrow> int \<Rightarrow> string list \<Rightarrow> call list \<Rightarrow> chunk list" where
  "query_arrivals svc k [] tr = []"
| "query_arrivals svc k (q # qs) tr =
     (case call_embed svc q tr of
        (Inl e, tr') \<Rightarrow> query_arrivals svc k qs tr'
      | (Inr qvec, tr') \<Rightarrow>
          (case index_arrivals svc qvec k (indexes svc) tr' of
             (ms, tr'') \<Rightarrow> ms @ query_arrivals svc k qs tr''))"

definition arrivals :: "services \<Rightarrow> string \<Rightarrow> int \<Rightarrow> call list \<Rightarrow> chunk list" where
  "arrivals svc question k tr =
     (if strip question = [] then []
      else query_arrivals svc k (fst (generate_alternative_queries svc question 3 tr))
             (snd (generate_alternative_queries svc question 3 tr)))"

text \<open>
  The entry that should survive for an id: the first of the returned matches with that
  id whose score no other match with that id exceeds.
\<close>

definition best_match :: "chunk list \<Rightarrow> string \<Rightarrow> chunk option" where
  "best_match ms i =
     find (\<lambda>m. cid m = i \<and> (\<forall>m' \<in> set ms. cid m' = i \<longrightarrow> score m' \<le> score m)) ms"

subsection \<open>Cross-link expansion\<close>

text \<open>
  \<open>value and isinstance(value, str) and len(value.strip()) > 2\<close> over the keys
  \<open>schedule\<close>, \<open>appendix\<close>, \<open>part\<close>.
\<close>

definition related_keys :: "chunk \<Rightarrow> string list" where
  "related_keys c =
     concat (map (\<lambda>key. (case map_of (metadata c) key of
                             None \<Rightarrow> []
                           | Some v \<Rightarrow> if v \<noteq> [] \<and> length (strip v) > 2 then [v] else []))
                 [''schedule'', ''appendix'', ''part''])"

text \<open>\<open>if m["id"] not in expanded: expanded[m["id"]] = m\<close>: the first occurrence wins.\<close>

definition add_new :: "(string, chunk) dict \<Rightarrow> chunk \<Rightarrow> (string, chunk) dict" where
  "add_new d m = (case map_of d (cid m) of None \<Rightarrow> AList.update (cid m) m d | Some old \<Rightarrow> d)"

fun link_indexes ::
  "services \<Rightarrow> real list \<Rightarrow> int \<Rightarrow> string list \<Rightarrow> (string, chunk) dict \<Rightarrow> call list
   \<Rightarrow> (string, chunk) dict \<times> call list" where
  "link_indexes svc qvec k [] d tr = (d, tr)"
| "link_indexes svc qvec k (name # names) d tr =
     (case call_index svc name qvec k tr of
        (Inl e, tr') \<Rightarrow> (d, tr')
      | (Inr matches, tr') \<Rightarrow>
          link_indexes svc qvec k names (foldl add_new d (map (tag_source name) matches)) tr')"

text \<open>The loop over the seed values of one chunk, each under its own \<open>try\<close>.\<close>

fun follow_links ::
  "services \<Rightarrow> int \<Rightarrow> string list \<Rightarrow> (string, chunk) dict \<Rightarrow> call list
   \<Rightarrow> (string, chunk) dict \<times> call list" where
  "follow_links svc k [] d tr = (d, tr)"
| "follow_links svc k (v # vs) d tr =
     (case call_embed svc v tr of
        (Inl e, tr') \<Rightarrow> follow_links svc k vs d tr'
      | (Inr qvec, tr') \<Rightarrow>
          (case link_indexes svc qvec k (indexes svc) d tr' of
             (d', tr'') \<Rightarrow> follow_links svc k vs d' tr''))"

fun expand_chunks ::
  "services \<Rightarrow> int \<Rightarrow> chunk list \<Rightarrow> (string, chunk) dict \<Rightarrow> call list
   \<Rightarrow> (string, chunk) dict \<times> call list" where
  "expand_chunks svc k [] d tr = (d, tr)"
| "expand_chunks svc k (c # cs) d tr =
     (case follow_links svc k (slice_to 3 (related_keys c)) d tr of
        (d', tr') \<Rightarrow> expand_chunks svc k cs d' tr')"

definition expand_with_links ::
  "services \<Rightarrow> chunk list \<Rightarrow> int \<Rightarrow> call list \<Rightarrow> chunk list \<times> call list" where
  "expand_with_links svc chunks k tr =
     (if chunks = [] then ([], tr)
      else (let expanded = foldl (\<lambda>d c. AList.update (cid c) c d) [] chunks
            in (case expand_chunks svc k chunks expanded tr of
                  (expanded', tr') \<Rightarrow> (map snd expanded', tr'))))"

subsection \<open>Reranking\<close>

definition chunk_text :: "chunk \<Rightarrow> string" where
  "chunk_text c = dict_get (metadata c) ''text'' []"

definition chunk_source :: "chunk \<Rightarrow> string" where
  "chunk_source c = dict_get (metadata c) ''index_source'' ''unknown''"

definition chunk_block :: "chunk list \<Rightarrow> string" where
  "chunk_block chunks =
     join (newline @ newline)
       (map (\<lambda>(i, c). ''Chunk '' @ str_int (int i) @ '' ('' @ chunk_source c @ ''): '' @ slice_to 300 (chunk_text c))
            (zip [0..<length chunks] chunks))"

definition rerank_prompt :: "string \<Rightarrow> chunk list \<Rightarrow> int \<Rightarrow> string" where
  "rerank_prompt question chunks top_k =
     newline @
     ''    You are a legal assistant. Rank the following chunks by their relevance to the question.'' @ newline @
     newline @
     ''    Question: '' @ question @ newline @
     newline @
     ''    Chunks:'' @ newline @
     ''    '' @ chunk_block chunks @ newline @
     newline @
     ''    Output ONLY the top '' @ str_int top_k @ '' chunk numbers in order of relevance, comma-separated.'' @ newline @
     ''    ''"

definition rerank_request :: "string \<Rightarrow> chunk list \<Rightarrow> int \<Rightarrow> chat_request" where
  "rerank_request question chunks top_k =
     \<lparr>model = ''gpt-4o-mini'', messages = [(''user'', rerank_prompt question chunks top_k)],
      temperature = 0, max_tokens = 100, timeout = 30\<rparr>"

text \<open>
  \<open>re.findall(r'\b\d+\b', raw_output)\<close>: a match starts and ends at a word boundary and
  holds digits only, so the matches are the maximal runs of word characters that are all
  digits, from left to right.
\<close>

fun word_runs :: "string \<Rightarrow> string \<Rightarrow> string list" where
  "word_runs cur [] = (if cur = [] then [] else [cur])"
| "word_runs cur (c # s) =
     (if is_word_char c then word_runs (cur @ [c]) s
      else (if cur = [] then [] else [cur]) @ word_runs [] s)"

definition findall_numbers :: "string \<Rightarrow> string list" where
  "findall_numbers s = filter (list_all is_digit) (word_runs [] s)"

text \<open>
  The loop over the parsed numbers, with its \<open>break\<close>. \<open>int(num_str)\<close> of a run of digits
  is never negative, so \<open>0 <= idx\<close> holds.
\<close>

fun select_indices :: "nat \<Rightarrow> int \<Rightarrow> string list \<Rightarrow> nat list \<Rightarrow> nat list" where
  "select_indices n top_k [] selected_idx = selected_idx"
| "select_indices n top_k (num_str # numbers) selected_idx =
     (let idx = int_of_digits num_str;
          selected_idx' = (if idx < n \<and> idx \<notin> set selected_idx then selected_idx @ [idx] else selected_idx)
      in if int (length selected_idx') \<ge> top_k then selected_idx'
         else select_indices n top_k numbers selected_idx')"

text \<open>The padding loop over \<open>range(len(chunks))\<close>, with its \<open>break\<close>.\<close>

fun pad_indices :: "int \<Rightarrow> nat list \<Rightarrow> nat list \<Rightarrow> nat list" where
  "pad_indices top_k [] selected_idx = selected_idx"
| "pad_indices top_k (i # rest) selected_idx =
     (let selected_idx' = (if i \<notin> set selected_idx then selected_idx @ [i] else selected_idx)
      in if int (length selected_idx') \<ge> top_k then selected_idx'
         else pad_indices top_k rest selected_idx')"

text \<open>
  \<open>sorted(chunks, key=lambda x: x.get("score", 0), reverse=True)\<close>: Python's sort is
  stable, also under \<open>reverse=True\<close>, and so is \<^const>\<open>sort_key\<close>.
\<close>

definition sorted_by_score :: "chunk list \<Rightarrow> chunk list" where
  "sorted_by_score chunks = sort_key (\<lambda>x. - score x) chunks"

definition rerank_chunks ::
  "services \<Rightarrow> string \<Rightarrow> chunk list \<Rightarrow> int \<Rightarrow> call list \<Rightarrow> chunk list \<times> call list" where
  "rerank_chunks svc question chunks top_k tr =
     (if chunks = [] then ([], tr)
      else if int (length chunks) \<le> top_k then (slice_to top_k chunks, tr)
      else (case call_chat svc (rerank_request question chunks top_k) tr of
              (Inl e, tr') \<Rightarrow> (slice_to top_k (sorted_by_score chunks), tr')
            | (Inr None, tr') \<Rightarrow> (slice_to top_k (sorted_by_score chunks), tr')
            | (Inr (Some content), tr') \<Rightarrow>
                (let numbers = findall_numbers (strip content);
                     selected_idx = select_indices (length chunks) top_k numbers [];
                     selected_idx = (if int (length selected_idx) < top_k
                                     then pad_indices top_k [0..<length chunks] selected_idx
                                     else selected_idx)
                 in (map (\<lambda>i. chunks ! i) (slice_to top_k selected_idx), tr'))))"

subsection \<open>Context assembly\<close>

definition snippet_of :: "chunk \<Rightarrow> string" where
  "snippet_of c = ''['' @ upper (chunk_source c) @ ''] '' @ chunk_text c"

text \<open>
  The loop of \<open>build_context\<close> with its two \<open>break\<close>s; \<open>context_parts\<close> and
  \<open>total_length\<close> are the loop's variables.
\<close>

fun context_loop :: "chunk list \<Rightarrow> int \<Rightarrow> string list \<Rightarrow> int \<Rightarrow> string list" where
  "context_loop [] max_length context_parts total_length = context_parts"
| "context_loop (c # chunks) max_length context_parts total_length =
     (if strip (chunk_text c) = [] then context_loop chunks max_length context_parts total_length
      else (let snippet = snippet_of c in
            if total_length + int (length snippet) > max_length then
              (let remaining = max_length - total_length in
               if remaining > 100
               then context_parts @ [rsplit1_head CHR '' '' (slice_to remaining snippet) @ ''...'']
               else context_parts)
            else (let context_parts' = context_parts @ [snippet];
                      total_length' = total_length + int (length snippet)
                  in if total_length' \<ge> max_length then context_parts'
                     else context_loop chunks max_length context_parts' total_length')))"

definition build_context :: "chunk list \<Rightarrow> int \<Rightarrow> string" where
  "build_context chunks max_length = join (newline @ newline) (context_loop chunks max_length [] 0)"

subsection \<open>Answering\<close>

definition SYSTEM_PROMPT :: string where
  "SYSTEM_PROMPT =
     ''You are an Indian law assistant.'' @ newline @
     ''Your job is to:'' @ newline @
     ''1. Answer direct questions about the Constitution of India and other laws.'' @ newline @
     ''2. If a user describes a real-life situation in plain words (not a direct legal question),'' @ newline @
     ''   - Identify possible legal issues involved.'' @ newline @
     ''   - Suggest which laws, constitutional provisions, or schedules may apply.'' @ newline @
     ''   - Explain in simple, non-technical terms what kind of legal action or case may be possible.'' @ newline @
     ''   - If information is insufficient, politely ask clarifying questions.'' @ newline @
     ''Do NOT include citations, filenames, or sources in your response.'' @ newline @
     ''Always keep your language clear, practical, and understandable to non-lawyers.'' @ newline"

definition answer_request :: "string \<Rightarrow> string \<Rightarrow> chat_request" where
  "answer_request question context_text =
     \<lparr>model = ''gpt-4o-mini'',
      messages = [(''system'', SYSTEM_PROMPT),
                  (''user'', ''Question: '' @ question @ newline @ newline @ ''Context:'' @ newline @
                             context_text @ newline @ newline @ ''Answer:'')],
      temperature = 0, max_tokens = 600, timeout = 60\<rparr>"

definition msg_invalid :: string where
  "msg_invalid = ''Please provide a valid question.''"

definition msg_nothing_found :: string where
  "msg_nothing_found = ''I couldn't find relevant information.''"

text \<open>The apostrophe of this message is U+2019, the cross mark of the next U+274C.\<close>

definition msg_no_content :: string where
  "msg_no_content =
     ''I found data but couldn'' @ [CHR 0xE2, CHR 0x80, CHR 0x99] @ ''t extract meaningful content.''"

definition error_prefix :: string where
  "error_prefix = [CHR 0xE2, CHR 0x9D, CHR 0x8C] @ '' Error while answering: ''"

text \<open>
  The state \<open>answer_question\<close> works on: the log of network calls and the module's
  \<open>chat_history\<close>. \<open>save_session\<close> writes the history to a file and catches its own
  failures, so it has no part in what is returned. The content of a turn and the value
  \<open>answer_question\<close> returns are a \<open>str\<close> or \<open>None\<close>: \<^typ>\<open>string option\<close>.
\<close>

record session =
  calls :: "call list"
  chat_history :: "(string \<times> string option) list"

text \<open>
  The body of the \<open>try\<close>: \<open>Inl msg\<close> is an exception that leaves it, \<open>Inr\<close> the value
  of a \<open>return\<close>. The synthesis call is the one completion call whose content is not
  stripped: \<open>answer = resp.choices[0].message.content\<close> is returned, and recorded, as it
  is.
\<close>

definition answer_body ::
  "services \<Rightarrow> string \<Rightarrow> session \<Rightarrow> (string + string option) \<times> session" where
  "answer_body svc question s =
     (case multi_query_retrieve svc question 5 (calls s) of
        (candidate_chunks, tr1) \<Rightarrow>
          if candidate_chunks = [] then (Inr (Some msg_nothing_found), s\<lparr>calls := tr1\<rparr>)
          else (case expand_with_links svc candidate_chunks 3 tr1 of
                  (expanded_chunks, tr2) \<Rightarrow>
                    (case rerank_chunks svc question expanded_chunks 5 tr2 of
                       (top_chunks, tr3) \<Rightarrow>
                         (let context_text = build_context top_chunks 8000 in
                          if strip context_text = [] then (Inr (Some msg_no_content), s\<lparr>calls := tr3\<rparr>)
                          else (case call_chat svc (answer_request question context_text) tr3 of
                                  (Inl e, tr4) \<Rightarrow> (Inl e, s\<lparr>calls := tr4\<rparr>)
                                | (Inr answer, tr4) \<Rightarrow>
                                    (Inr answer,
                                     \<lparr>calls = tr4,
                                      chat_history = chat_history s @
                                        [(''user'', Some question), (''assistant'', answer)]\<rparr>))))))"

definition answer_question :: "services \<Rightarrow> string \<Rightarrow> session \<Rightarrow> string option \<times> session" where
  "answer_question svc question s =
     (if strip question = [] then (Some msg_invalid, s)
      else (case answer_body svc question s of
              (Inl e, s') \<Rightarrow> (Some (error_prefix @ e), s')
            | (Inr answer, s') \<Rightarrow> (answer, s')))"

section \<open>Concrete inputs\<close>

text \<open>
  The inputs the closed theorems below are evaluated on: a match carrying a text, two
  indexes that return the same document id with scores 0.7 and 0.9, a completion service
  that times out, one that answers the expansion request with a heading and three
  variations, one that answers the ranking request with indices, one whose responses
  have no text, an embedding service that is down, a pool of three chunks, and three
  short chunks for the context budget.
\<close>

definition matched :: "string \<Rightarrow> real \<Rightarrow> chunk" where
  "matched i sc = \<lparr>cid = i, score = sc, metadata = [(''text'', ''No person shall be deprived of his life'')]\<rparr>"

definition demo_services :: services where
  "demo_services =
     \<lparr>embed_query = (\<lambda>tr q. Inr [1, 0]),
      index_query = (\<lambda>tr name qvec k.
         if name = ''constitution'' then Inr [matched ''d1'' 0.7] else Inr [matched ''d1'' 0.9]),
      chat_create = (\<lambda>tr req. Inl ''timeout''),
      indexes = [''constitution'', ''criminal''],
      set_order = remdups\<rparr>"

definition listing_services :: services where
  "listing_services =
     demo_services\<lparr>chat_create :=
                     (\<lambda>tr req. Inr (Some (''Sure:'' @ newline @ ''- a'' @ newline @ ''- b'' @ newline @ ''- c''))),
                   set_order := (\<lambda>xs. rev (remdups xs))\<rparr>"

definition ranking_services :: services where
  "ranking_services = demo_services\<lparr>chat_create := (\<lambda>tr req. Inr (Some ''2, 7, 2''))\<rparr>"

definition refusing_services :: services where
  "refusing_services = demo_services\<lparr>chat_create := (\<lambda>tr req. Inr (Some ''I cannot rank these.''))\<rparr>"

definition silent_services :: services where
  "silent_services = demo_services\<lparr>chat_create := (\<lambda>tr req. Inr None)\<rparr>"

definition offline_services :: services where
  "offline_services = demo_services\<lparr>embed_query := (\<lambda>tr q. Inl ''connection refused'')\<rparr>"

definition demo_hit :: chunk where
  "demo_hit = \<lparr>cid = ''d1'', score = 0.9,
     metadata = [(''text'', ''No person shall be deprived of his life''), (''index_source'', ''criminal'')]\<rparr>"

definition demo_miss :: chunk where
  "demo_miss = \<lparr>cid = ''d1'', score = 0.7,
     metadata = [(''text'', ''No person shall be deprived of his life''), (''index_source'', ''constitution'')]\<rparr>"

definition pool3 :: "chunk list" where
  "pool3 = [matched ''p0'' 0.2, matched ''p1'' 0.9, matched ''p2'' 0.5]"

definition session0 :: session where
  "session0 = \<lparr>calls = [], chat_history = []\<rparr>"

definition short_chunk :: "string \<Rightarrow> chunk" where
  "short_chunk i = \<lparr>cid = i, score = 0, metadata = [(''text'', ''x''), (''index_source'', ''a'')]\<rparr>"

definition budget_chunks :: "chunk list" where
  "budget_chunks = [short_chunk ''c0'', short_chunk ''c1'', short_chunk ''c2'']"

definition demo_md5 :: "string \<Rightarrow> string" where
  "demo_md5 t = (if t = ''Preamble: An Act'' then ''9e107d9d372bb6826bd81d3542a419d6''
                 else ''e4d909c290d0fb1ca068ffaddf22cbd0'')"

definition demo_metadatas :: "(string, pyval) dict list" where
  "demo_metadatas = [[(''doc_type'', PStr ''preamble''), (''text'', PStr ''Preamble: An Act'')],
                     [(''doc_type'', PStr ''section''), (''text'', PStr ''Section 1: Short title'')]]"



text \<open>
  The synthesis request is the only request of \<open>chat.py\<close> with a system message and a
  user message, so the call log tells whether a run reached the synthesis call. A stage
  extends the log quietly when the calls it appends are not of that shape.
\<close>

definition synthesis_call :: "call \<Rightarrow> bool" where
  "synthesis_call c =
     (case c of ChatCreate req \<Rightarrow> map fst (messages req) = [''system'', ''user''] | _ \<Rightarrow> False)"

definition extends_quietly :: "call list \<Rightarrow> call list \<Rightarrow> bool" where
  "extends_quietly tr tr' = (\<exists>new. tr' = tr @ new \<and> list_all (\<lambda>c. \<not> synthesis_call c) new)"

text \<open>
  The invariant of the merge loop: the running map has one entry per id, and the entry
  of an id is the best of the matches merged so far.
\<close>

definition merged :: "(string, chunk) dict \<Rightarrow> chunk list \<Rightarrow> bool" where
  "merged d ms = (distinct (map fst d) \<and> (\<forall>i. map_of d i = best_match ms i))"

section \<open>Properties of ingestion\<close>

subsection \<open>Sanitized metadata\<close>





subsection \<open>Chunk ids and re-ingestion\<close>

lemma prepare_vectors_ids:
  "map fst (prepare_vectors md5 filename embeddings metadatas) =
     map (\<lambda>(idx, meta). generate_doc_id md5 filename (int idx)
            (case map_of meta ''text'' of Some (PStr t) \<Rightarrow> t | _ \<Rightarrow> []))
         (zip [0..<length embeddings] metadatas)"
  by (rule nth_equalityI) (auto simp: prepare_vectors_def)

lemma upsert_keep_keys:
  "set (map fst vectors) \<subseteq> set (map fst store) \<Longrightarrow> map fst (upsert vectors store) = map fst store"
proof (induction vectors arbitrary: store)
  case Nil
  then show ?case by (simp add: upsert_def)
next
  case (Cons v vectors)
  obtain vid payload where v: "v = (vid, payload)" by (cases v)
  have keys: "map fst (AList.update vid payload store) = map fst store"
    using Cons.prems v by (simp add: update_keys)
  have "map fst (upsert vectors (AList.update vid payload store)) = map fst (AList.update vid payload store)"
    using Cons.prems keys by (intro Cons.IH) simp
  then show ?case using keys v by (simp add: upsert_def)
qed

lemma upsert_has_keys: "fst ` set (upsert vectors store) = fst ` set store \<union> fst ` set vectors"
proof (induction vectors arbitrary: store)
  case Nil
  then show ?case by (simp add: upsert_def)
next
  case (Cons v vectors)
  obtain vid payload where v: "v = (vid, payload)" by (cases v)
  have "fst ` set (upsert vectors (AList.update vid payload store))
         = fst ` set (AList.update vid payload store) \<union> fst ` set vectors"
    by (rule Cons.IH)
  then show ?case using v by (auto simp: upsert_def dom_update)
qed

text \<open>
  C7. The id depends on the chunk text only through the first eight characters of its
  digest, next to the filename and the position. So the ids a file's vectors get do not
  depend on the embeddings of the run, and upserting the vectors of a second run over
  those of the first leaves the stored ids as they were: every vector overwrites, none
  is added.
\<close>

theorem generate_doc_id_idempotent:
  assumes "length embeddings' = length embeddings"
  shows "(take 8 (md5 t) = take 8 (md5 t') \<longrightarrow>
            generate_doc_id md5 filename i t = generate_doc_id md5 filename i t')
       \<and> map fst (prepare_vectors md5 filename embeddings' metadatas)
           = map fst (prepare_vectors md5 filename embeddings metadatas)
       \<and> map fst (upsert (prepare_vectors md5 filename embeddings' metadatas)
                    (upsert (prepare_vectors md5 filename embeddings metadatas) store))
           = map fst (upsert (prepare_vectors md5 filename embeddings metadatas) store)"
proof -
  let ?first = "prepare_vectors md5 filename embeddings metadatas"
  let ?again = "prepare_vectors md5 filename embeddings' metadatas"
  have ids: "map fst ?again = map fst ?first"
    using assms by (simp add: prepare_vectors_ids)
  have "set (map fst ?again) \<subseteq> set (map fst (upsert ?first store))"
    unfolding ids using upsert_has_keys[of ?first store] by auto
  then have "map fst (upsert ?again (upsert ?first store)) = map fst (upsert ?first store)"
    by (rule upsert_keep_keys)
  with ids show ?thesis by (simp add: generate_doc_id_def)
qed

theorem generate_doc_id_idempotent_witness:
  "length [[0.5], [0.25 :: real]] = length [[0.1], [0.2 :: real]]
   \<and> take 8 (demo_md5 ''Preamble: An Act'') = take 8 (demo_md5 ''Preamble: An Act'')
   \<and> map fst (prepare_vectors demo_md5 ''act.json'' [[0.1], [0.2 :: real]] demo_metadatas)
        = [''act.json___0___9e107d9d'', ''act.json___1___e4d909c2'']
   \<and> map fst (upsert (prepare_vectors demo_md5 ''act.json'' [[0.5], [0.25 :: real]] demo_metadatas)
                 (upsert (prepare_vectors demo_md5 ''act.json'' [[0.1], [0.2 :: real]] demo_metadatas) []))
        = [''act.json___0___9e107d9d'', ''act.json___1___e4d909c2'']"
  using generate_doc_id_idempotent [of "[[0.5], [0.25 :: real]]" "[[0.1], [0.2 :: real]]" demo_md5
      "''Preamble: An Act''" "''Preamble: An Act''" "''act.json''" 0 demo_metadatas "[]"]
  by (simp add: prepare_vectors_def generate_doc_id_def demo_md5_def demo_metadatas_def upsert_def
       str_int_def str_nat.simps digit_char_def upt_rec)

section \<open>Properties of the query-time pipeline\<close>

subsection \<open>Strings and slices\<close>

lemma strip_blank: "list_all is_space s \<Longrightarrow> strip s = []"
proof -
  assume "list_all is_space s"
  then have d: "dropWhile is_space s = []" by (induction s) auto
  show ?thesis unfolding strip_def strip_with_def d by simp
qed

lemma strip_q: "strip ''q'' = ''q''"
  by (simp add: strip_def strip_with_def is_space_def)

lemma slice_to_nonneg: "0 \<le> k \<Longrightarrow> slice_to k xs = take (nat k) xs"
  by (simp add: slice_to_def)

lemma slice_to_all: "int (length xs) \<le> k \<Longrightarrow> slice_to k xs = xs"
  by (simp add: slice_to_def)

lemma length_join:
  "length (join sep parts) = sum_list (map length parts) + length sep * (length parts - 1)"
  by (induction sep parts rule: join.induct) auto

lemma length_rsplit1_head: "length (rsplit1_head sep s) \<le> length s"
proof -
  have "length (tl (dropWhile (\<lambda>c. c \<noteq> sep) (rev s))) \<le> length (rev s)"
    using length_dropWhile_le[of "\<lambda>c. c \<noteq> sep" "rev s"] by simp
  then show ?thesis by (simp add: rsplit1_head_def)
qed

lemma find_snoc:
  "List.find P (xs @ [x]) =
     (case List.find P xs of None \<Rightarrow> (if P x then Some x else None) | Some y \<Rightarrow> Some y)"
  by (induction xs) auto

subsection \<open>The best match of an id\<close>

lemma best_match_cid: "best_match ms i = Some s \<Longrightarrow> cid s = i \<and> s \<in> set ms"
  by (auto simp: best_match_def find_Some_iff)

lemma best_match_max:
  "best_match ms i = Some s \<Longrightarrow> m \<in> set ms \<Longrightarrow> cid m = i \<Longrightarrow> score m \<le> score s"
  by (auto simp: best_match_def find_Some_iff)

lemma best_match_exists:
  assumes "m \<in> set ms"
  shows "\<exists>s. best_match ms (cid m) = Some s"
proof -
  let ?S = "{x \<in> set ms. cid x = cid m}"
  have fin: "finite (score ` ?S)" and ne: "score ` ?S \<noteq> {}" using assms by auto
  from Max_in[OF fin ne] obtain x where x: "x \<in> ?S" "score x = Max (score ` ?S)" by auto
  have "\<forall>m' \<in> set ms. cid m' = cid m \<longrightarrow> score m' \<le> score x"
    using x(2) fin by (auto intro!: Max_ge)
  with x(1) have "\<exists>x. x \<in> set ms \<and> (cid x = cid m \<and> (\<forall>m' \<in> set ms. cid m' = cid m \<longrightarrow> score m' \<le> score x))"
    by blast
  then have "best_match ms (cid m) \<noteq> None"
    unfolding best_match_def find_None_iff by blast
  then show ?thesis by auto
qed

text \<open>What one more returned match does to the best match of an id.\<close>

lemma best_match_snoc:
  "best_match (ms @ [m]) i =
     (if cid m \<noteq> i then best_match ms i
      else (case best_match ms i of
              None \<Rightarrow> Some m
            | Some old \<Rightarrow> if score m > score old then Some m else Some old))"
proof (cases "cid m = i")
  case False
  then have "\<And>x. (cid x = i \<and> (\<forall>m' \<in> set (ms @ [m]). cid m' = i \<longrightarrow> score m' \<le> score x))
                = (cid x = i \<and> (\<forall>m' \<in> set ms. cid m' = i \<longrightarrow> score m' \<le> score x))"
    by auto
  then show ?thesis using False
    by (simp add: best_match_def find_snoc split: option.splits)
next
  case True
  let ?P = "\<lambda>x. cid x = i \<and> (\<forall>m' \<in> set ms. cid m' = i \<longrightarrow> score m' \<le> score x)"
  let ?P' = "\<lambda>x. cid x = i \<and> (\<forall>m' \<in> set (ms @ [m]). cid m' = i \<longrightarrow> score m' \<le> score x)"
  have P': "\<And>x. ?P' x = (?P x \<and> score m \<le> score x)" using True by auto
  show ?thesis
  proof (cases "best_match ms i")
    case None
    then have no: "\<And>x. x \<in> set ms \<Longrightarrow> cid x \<noteq> i"
      using best_match_exists by fastforce
    then have "List.find ?P' ms = None" by (auto simp: find_None_iff)
    moreover have "?P' m" using True no by auto
    ultimately have "List.find ?P' (ms @ [m]) = Some m"
      by (simp add: find_snoc)
    then show ?thesis using True None by (simp add: best_match_def)
  next
    case (Some old)
    then have f: "List.find ?P ms = Some old" by (simp add: best_match_def)
    have oldmax: "\<And>x. x \<in> set ms \<Longrightarrow> cid x = i \<Longrightarrow> score x \<le> score old"
      using best_match_max[OF Some] by blast
    show ?thesis
    proof (cases "score m > score old")
      case gt: True
      have "\<And>x. x \<in> set ms \<Longrightarrow> \<not> ?P' x"
      proof
        fix x assume x: "x \<in> set ms" and p: "?P' x"
        then have "score x \<le> score old" using oldmax by blast
        moreover from p have "score m \<le> score x" using True by auto
        ultimately show False using gt by simp
      qed
      then have "List.find ?P' ms = None" by (auto simp: find_None_iff)
      moreover have "?P' m" using True oldmax gt by (auto intro: order_trans less_imp_le)
      ultimately have "List.find ?P' (ms @ [m]) = Some m"
        by (simp add: find_snoc)
      then show ?thesis using True Some gt by (simp add: best_match_def)
    next
      case le: False
      from f obtain j where j: "j < length ms" "?P (ms ! j)" "old = ms ! j" "\<forall>k<j. \<not> ?P (ms ! k)"
        unfolding find_Some_iff by blast
      have "?P' (ms ! j)" using j(2,3) le P' by auto
      moreover have "\<forall>k<j. \<not> ?P' (ms ! k)" using j(4) P' by blast
      ultimately have "List.find ?P' ms = Some old"
        unfolding find_Some_iff using j(1,3) by blast
      then have "List.find ?P' (ms @ [m]) = Some old"
        by (simp add: find_snoc)
      then show ?thesis using True Some le by (simp add: best_match_def)
    qed
  qed
qed

subsection \<open>Multi-index retrieval keeps the best match of each id\<close>

lemma merged_step: "merged d ms \<Longrightarrow> merged (merge_match d m) (ms @ [m])"
  unfolding merged_def
  by (auto simp: merge_match_def best_match_snoc distinct_update update_conv' split: option.splits)

lemma merged_foldl: "merged d ms \<Longrightarrow> merged (foldl merge_match d ms') (ms @ ms')"
proof (induction ms' arbitrary: d ms)
  case Nil
  then show ?case by simp
next
  case (Cons m ms')
  from Cons.IH[OF merged_step[OF Cons.prems, of m]] show ?case by simp
qed

lemma merged_all: "merged (foldl merge_match [] ms) ms"
  using merged_foldl[of "[]" "[]" ms] by (simp add: merged_def best_match_def)

lemma query_indexes_arrivals:
  "query_indexes svc qvec k names d tr =
     (foldl merge_match d (fst (index_arrivals svc qvec k names tr)), snd (index_arrivals svc qvec k names tr))"
  by (induction names arbitrary: d tr) (auto split: prod.splits sum.splits)

lemma retrieve_queries_arrivals:
  "fst (retrieve_queries svc k qs d tr) = foldl merge_match d (query_arrivals svc k qs tr)"
  by (induction qs arbitrary: d tr) (auto simp: query_indexes_arrivals split: prod.splits sum.splits)

lemma multi_query_retrieve_arrivals:
  "fst (multi_query_retrieve svc question k tr) = map snd (foldl merge_match [] (arrivals svc question k tr))"
  using retrieve_queries_arrivals[of svc k "fst (generate_alternative_queries svc question 3 tr)" "[]"
      "snd (generate_alternative_queries svc question 3 tr)"]
  by (auto simp: multi_query_retrieve_def arrivals_def split: prod.splits)

lemma merged_values:
  assumes "merged d ms"
  shows "distinct (map cid (map snd d))"
    and "\<forall>s \<in> set (map snd d). best_match ms (cid s) = Some s"
    and "\<forall>m \<in> set ms. \<exists>s \<in> set (map snd d). cid s = cid m \<and> score m \<le> score s"
proof -
  from assms have dist: "distinct (map fst d)" and mo: "\<And>i. map_of d i = best_match ms i"
    by (auto simp: merged_def)
  have key: "\<And>k v. (k, v) \<in> set d \<Longrightarrow> best_match ms k = Some v \<and> cid v = k"
  proof -
    fix k v assume "(k, v) \<in> set d"
    with dist have "map_of d k = Some v" by simp
    with mo have "best_match ms k = Some v" by simp
    then show "best_match ms k = Some v \<and> cid v = k" using best_match_cid by blast
  qed
  have "\<forall>x \<in> set d. cid (snd x) = fst x"
    using key by (metis prod.collapse)
  then have eq: "map cid (map snd d) = map fst d"
    by simp
  show "distinct (map cid (map snd d))" unfolding eq by (rule dist)
  show "\<forall>s \<in> set (map snd d). best_match ms (cid s) = Some s"
    using key by fastforce
  show "\<forall>m \<in> set ms. \<exists>s \<in> set (map snd d). cid s = cid m \<and> score m \<le> score s"
  proof
    fix m assume m: "m \<in> set ms"
    from best_match_exists[OF m] obtain s where s: "best_match ms (cid m) = Some s" by blast
    with mo have "map_of d (cid m) = Some s" by simp
    then have "(cid m, s) \<in> set d" by (rule map_of_SomeD)
    then have "s \<in> set (map snd d)" by force
    moreover have "cid s = cid m" using best_match_cid[OF s] by simp
    moreover have "score m \<le> score s" using best_match_max[OF s m] by simp
    ultimately show "\<exists>s \<in> set (map snd d). cid s = cid m \<and> score m \<le> score s" by blast
  qed
qed

text \<open>
  C1. Whatever the services answer: the output of \<open>multi_query_retrieve\<close> has no id
  twice; every entry of the output is the best of the returned matches with its id (the
  first, in expansion order then index order, among those of highest score); and every
  returned match has an entry of its id in the output, with a score at least its own.
\<close>

theorem multi_query_retrieve_dedup:
  "distinct (map cid (fst (multi_query_retrieve svc question k tr)))
   \<and> (\<forall>s \<in> set (fst (multi_query_retrieve svc question k tr)).
         best_match (arrivals svc question k tr) (cid s) = Some s)
   \<and> (\<forall>m \<in> set (arrivals svc question k tr).
         \<exists>s \<in> set (fst (multi_query_retrieve svc question k tr)). cid s = cid m \<and> score m \<le> score s)"
  unfolding multi_query_retrieve_arrivals
  using merged_values[OF merged_all, of "arrivals svc question k tr"] by blast

lemma demo_retrieve:
  "multi_query_retrieve demo_services ''q'' 5 [] =
    ([demo_hit],
     [ChatCreate (expansion_request ''q'' 3), EmbedQuery ''q'', IndexQuery ''constitution'' [1, 0] 5,
      IndexQuery ''criminal'' [1, 0] 5])"
  by (simp add: multi_query_retrieve_def generate_alternative_queries_def call_chat_def call_embed_def
      call_index_def demo_services_def strip_q merge_match_def tag_source_def matched_def demo_hit_def)

lemma demo_arrivals: "arrivals demo_services ''q'' 5 [] = [demo_miss, demo_hit]"
  by (simp add: arrivals_def generate_alternative_queries_def call_chat_def call_embed_def call_index_def
      demo_services_def strip_q tag_source_def matched_def demo_hit_def demo_miss_def)

text \<open>
  The spec's example: the id \<open>d1\<close> arrives with score 0.7 from the first index and with
  0.9 from the second; the entry with 0.9 survives.
\<close>

theorem multi_query_retrieve_dedup_witness:
  "arrivals demo_services ''q'' 5 [] = [demo_miss, demo_hit]
   \<and> score demo_miss = 0.7 \<and> score demo_hit = 0.9 \<and> cid demo_miss = cid demo_hit
   \<and> fst (multi_query_retrieve demo_services ''q'' 5 []) = [demo_hit]
   \<and> best_match (arrivals demo_services ''q'' 5 []) ''d1'' = Some demo_hit"
  using multi_query_retrieve_dedup [of demo_services "''q''" 5 "[]"]
  by (simp add: demo_retrieve demo_arrivals demo_hit_def demo_miss_def)

subsection \<open>Reranking\<close>

lemma mset_map_nth_subset:
  assumes "distinct js" and "\<forall>i \<in> set js. i < length xs"
  shows "mset (map (\<lambda>i. xs ! i) js) \<subseteq># mset xs"
proof -
  have "mset js = mset_set (set js)" using assms(1) by (simp add: mset_set_set)
  also have "\<dots> \<subseteq># mset_set {0..<length xs}"
    using assms(2) by (intro subset_imp_msubset_mset_set) auto
  also have "\<dots> = mset [0..<length xs]" by simp
  finally have "image_mset (\<lambda>i. xs ! i) (mset js) \<subseteq># image_mset (\<lambda>i. xs ! i) (mset [0..<length xs])"
    by (rule image_mset_subseteq_mono)
  moreover have "map (\<lambda>i. xs ! i) [0..<length xs] = xs" by (rule map_nth)
  ultimately show ?thesis by (metis mset_map)
qed

lemma mset_take_subset: "mset (take k xs) \<subseteq># mset xs"
proof -
  have "mset xs = mset (take k xs) + mset (drop k xs)"
    by (metis append_take_drop_id mset_append)
  then show ?thesis by simp
qed

text \<open>Both index loops keep the selection free of repetitions and inside the pool.\<close>

lemma select_indices_ok:
  "distinct sel \<Longrightarrow> \<forall>i \<in> set sel. i < n \<Longrightarrow>
   distinct (select_indices n top_k numbers sel) \<and> (\<forall>i \<in> set (select_indices n top_k numbers sel). i < n)"
proof (induction numbers arbitrary: sel)
  case Nil
  then show ?case by simp
next
  case (Cons num numbers)
  let ?idx = "int_of_digits num"
  let ?sel' = "if ?idx < n \<and> ?idx \<notin> set sel then sel @ [?idx] else sel"
  have ok: "distinct ?sel'" "\<forall>i \<in> set ?sel'. i < n" using Cons.prems by auto
  show ?case
  proof (cases "top_k \<le> int (length ?sel')")
    case True
    then have eq: "select_indices n top_k (num # numbers) sel = ?sel'" by (simp add: Let_def)
    show ?thesis unfolding eq using ok by blast
  next
    case False
    then have eq: "select_indices n top_k (num # numbers) sel = select_indices n top_k numbers ?sel'"
      by (simp add: Let_def)
    show ?thesis unfolding eq by (rule Cons.IH[OF ok])
  qed
qed

lemma pad_indices_ok:
  "distinct sel \<Longrightarrow> \<forall>i \<in> set sel. i < n \<Longrightarrow> \<forall>i \<in> set rest. i < n \<Longrightarrow>
   distinct (pad_indices top_k rest sel) \<and> (\<forall>i \<in> set (pad_indices top_k rest sel). i < n)"
proof (induction rest arbitrary: sel)
  case Nil
  then show ?case by simp
next
  case (Cons j rest)
  let ?sel' = "if j \<notin> set sel then sel @ [j] else sel"
  have ok: "distinct ?sel'" "\<forall>i \<in> set ?sel'. i < n" using Cons.prems by auto
  have rest: "\<forall>i \<in> set rest. i < n" using Cons.prems by simp
  show ?case
  proof (cases "top_k \<le> int (length ?sel')")
    case True
    then have eq: "pad_indices top_k (j # rest) sel = ?sel'" by (simp add: Let_def)
    show ?thesis unfolding eq using ok by blast
  next
    case False
    then have eq: "pad_indices top_k (j # rest) sel = pad_indices top_k rest ?sel'"
      by (simp add: Let_def)
    show ?thesis unfolding eq by (rule Cons.IH[OF ok rest])
  qed
qed

lemma pad_indices_mono: "set sel \<subseteq> set (pad_indices top_k rest sel)"
proof (induction rest arbitrary: sel)
  case Nil
  then show ?case by simp
next
  case (Cons i rest)
  let ?sel' = "if i \<notin> set sel then sel @ [i] else sel"
  have "set sel \<subseteq> set ?sel'" by auto
  also have "\<dots> \<subseteq> set (pad_indices top_k rest ?sel')" by (rule Cons.IH)
  finally show ?case by (auto simp: Let_def)
qed

text \<open>The padding loop stops with \<open>top_k\<close> indices, or it has taken every index offered.\<close>

lemma pad_indices_full:
  "top_k \<le> int (length (pad_indices top_k rest sel)) \<or> set rest \<subseteq> set (pad_indices top_k rest sel)"
proof (induction rest arbitrary: sel)
  case Nil
  then show ?case by simp
next
  case (Cons i rest)
  let ?sel' = "if i \<notin> set sel then sel @ [i] else sel"
  show ?case
  proof (cases "top_k \<le> int (length ?sel')")
    case True
    then show ?thesis by (simp add: Let_def)
  next
    case False
    then have eq: "pad_indices top_k (i # rest) sel = pad_indices top_k rest ?sel'"
      by (simp add: Let_def)
    have "i \<in> set ?sel'" by simp
    then have "i \<in> set (pad_indices top_k rest ?sel')" using pad_indices_mono by blast
    with Cons.IH[of ?sel'] show ?thesis unfolding eq by auto
  qed
qed

lemma pad_indices_length:
  assumes "distinct sel" and "\<forall>i \<in> set sel. i < n" and "top_k < int n"
  shows "top_k \<le> int (length (pad_indices top_k [0..<n] sel))"
proof (rule ccontr)
  assume neg: "\<not> top_k \<le> int (length (pad_indices top_k [0..<n] sel))"
  let ?r = "pad_indices top_k [0..<n] sel"
  from pad_indices_full[of top_k "[0..<n]" sel] neg have sub: "set [0..<n] \<subseteq> set ?r" by blast
  have "distinct ?r" using pad_indices_ok[OF assms(1,2), of "[0..<n]" top_k] by simp
  then have "card (set ?r) = length ?r" by (rule distinct_card)
  moreover have "card (set [0..<n]) \<le> card (set ?r)" using sub by (intro card_mono) auto
  ultimately have "n \<le> length ?r" by simp
  with assms(3) neg show False by linarith
qed

lemma sorted_by_score_props:
  "mset (sorted_by_score chunks) = mset chunks"
  "sorted_wrt (\<lambda>a b. score a \<ge> score b) (sorted_by_score chunks)"
proof -
  show "mset (sorted_by_score chunks) = mset chunks" by (simp add: sorted_by_score_def)
  have "sorted (map (\<lambda>x. - score x) (sort_key (\<lambda>x. - score x) chunks))" by (rule sorted_sort_key)
  then show "sorted_wrt (\<lambda>a b. score a \<ge> score b) (sorted_by_score chunks)"
    by (simp add: sorted_by_score_def sorted_map sorted_wrt_map)
qed

lemma no_completion_cases:
  "no_completion r \<or> (\<exists>content. r = Inr (Some content))"
  by (cases r) (auto simp: no_completion_def split: option.splits)

lemma rerank_chunks_failed:
  assumes "no_completion (chat_create svc tr (rerank_request question chunks top_k))"
    and "top_k < int (length chunks)"
  shows "fst (rerank_chunks svc question chunks top_k tr) = slice_to top_k (sorted_by_score chunks)"
proof (cases "chunks = []")
  case True
  then show ?thesis by (simp add: rerank_chunks_def sorted_by_score_def slice_to_def)
next
  case False
  with assms show ?thesis
    by (auto simp: rerank_chunks_def call_chat_def no_completion_def split: sum.splits option.splits)
qed

lemma rerank_chunks_parsed:
  assumes "chat_create svc tr (rerank_request question chunks top_k) = Inr (Some content)"
    and "top_k < int (length chunks)" and "0 \<le> top_k"
  shows "\<exists>js. fst (rerank_chunks svc question chunks top_k tr) = map (\<lambda>i. chunks ! i) js
            \<and> distinct js \<and> (\<forall>i \<in> set js. i < length chunks) \<and> length js = nat top_k"
proof -
  define sel where "sel = select_indices (length chunks) top_k (findall_numbers (strip content)) []"
  define sel' where "sel' = (if int (length sel) < top_k then pad_indices top_k [0..<length chunks] sel else sel)"
  have sel: "distinct sel \<and> (\<forall>i \<in> set sel. i < length chunks)"
    unfolding sel_def by (rule select_indices_ok) auto
  have sel': "distinct sel' \<and> (\<forall>i \<in> set sel'. i < length chunks)"
    unfolding sel'_def using sel pad_indices_ok[of sel "length chunks" "[0..<length chunks]" top_k] by auto
  have len: "top_k \<le> int (length sel')"
    unfolding sel'_def using sel pad_indices_length[of sel "length chunks" top_k] assms(2) by auto
  have ne: "chunks \<noteq> []" using assms(2,3) by auto
  have "fst (rerank_chunks svc question chunks top_k tr) = map (\<lambda>i. chunks ! i) (take (nat top_k) sel')"
    using assms ne by (simp add: rerank_chunks_def call_chat_def Let_def sel'_def sel_def slice_to_nonneg)
  moreover have "distinct (take (nat top_k) sel')" using sel' by simp
  moreover have "\<forall>i \<in> set (take (nat top_k) sel'). i < length chunks"
    using sel' by (meson in_set_takeD)
  moreover have "length (take (nat top_k) sel') = nat top_k" using len assms(3) by simp
  ultimately show ?thesis by blast
qed

lemma pool3_numbers: "findall_numbers (strip ''2, 7, 2'') = [''2'', ''7'', ''2'']"
  by (simp add: findall_numbers_def strip_def strip_with_def is_space_def is_word_char_def is_digit_def)

lemma pool3_words: "findall_numbers (strip ''I cannot rank these.'') = []"
  by (simp add: findall_numbers_def strip_def strip_with_def is_space_def is_word_char_def is_digit_def)

lemma pool3_ranked:
  "fst (rerank_chunks ranking_services ''q'' pool3 2 []) = [matched ''p2'' 0.5, matched ''p0'' 0.2]"
  by (simp add: rerank_chunks_def call_chat_def ranking_services_def demo_services_def pool3_def
       pool3_numbers int_of_digits_def slice_to_def Let_def upt_rec)

lemma pool3_fallback:
  "fst (rerank_chunks demo_services ''q'' pool3 2 []) = [matched ''p1'' 0.9, matched ''p2'' 0.5]"
  by (simp add: rerank_chunks_def call_chat_def demo_services_def pool3_def sorted_by_score_def
       matched_def slice_to_def)

lemma pool3_silent:
  "fst (rerank_chunks silent_services ''q'' pool3 2 []) = [matched ''p1'' 0.9, matched ''p2'' 0.5]"
  by (simp add: rerank_chunks_def call_chat_def silent_services_def demo_services_def pool3_def
       sorted_by_score_def matched_def slice_to_def)

text \<open>
  A reply that is text without a usable index is not a failure of the call: the padding
  loop fills the selection in pool order, here with the chunks of scores 0.2 and 0.9.
\<close>

lemma pool3_padded:
  "fst (rerank_chunks refusing_services ''q'' pool3 2 []) = [matched ''p0'' 0.2, matched ''p1'' 0.9]"
  by (simp add: rerank_chunks_def call_chat_def refusing_services_def demo_services_def pool3_def
       pool3_words slice_to_def Let_def upt_rec)

text \<open>
  C3. A pool of at most \<open>top_k\<close> chunks is returned as it is and in its order, and the
  call log is the one before: no language-model call is made.
\<close>

theorem rerank_pass_through:
  "int (length chunks) \<le> top_k \<Longrightarrow> rerank_chunks svc question chunks top_k tr = (chunks, tr)"
  by (simp add: rerank_chunks_def slice_to_all)

theorem rerank_pass_through_witness:
  "int (length pool3) \<le> 5 \<and> rerank_chunks ranking_services ''q'' pool3 5 [] = (pool3, [])"
  using rerank_pass_through [of pool3 5 ranking_services "''q''" "[]"]
  by (simp add: pool3_def)

text \<open>
  C4. For a pool larger than \<open>top_k\<close> whose ranking call fails (the call raises or
  times out, or its response has no completion text), \<open>rerank_chunks\<close> returns a
  list, namely \<open>sorted(chunks, by score, descending)[:top_k]\<close>: a rearrangement of the
  pool in which no chunk stands before one of higher score, cut to its first \<open>top_k\<close>
  chunks.
\<close>

theorem rerank_fallback:
  assumes "top_k < int (length chunks)"
    and "no_completion (chat_create svc tr (rerank_request question chunks top_k))"
  shows "fst (rerank_chunks svc question chunks top_k tr) = slice_to top_k (sorted_by_score chunks)
       \<and> mset (sorted_by_score chunks) = mset chunks
       \<and> sorted_wrt (\<lambda>a b. score a \<ge> score b) (sorted_by_score chunks)
       \<and> (0 \<le> top_k \<longrightarrow>
            slice_to top_k (sorted_by_score chunks) = take (nat top_k) (sorted_by_score chunks))"
  using rerank_chunks_failed[OF assms(2,1)] sorted_by_score_props[of chunks]
  by (simp add: slice_to_nonneg)

theorem rerank_fallback_witness:
  "2 < int (length pool3)
   \<and> chat_create demo_services [] (rerank_request ''q'' pool3 2) = Inl ''timeout''
   \<and> no_completion (chat_create demo_services [] (rerank_request ''q'' pool3 2))
   \<and> chat_create silent_services [] (rerank_request ''q'' pool3 2) = Inr None
   \<and> no_completion (chat_create silent_services [] (rerank_request ''q'' pool3 2))
   \<and> map score pool3 = [0.2, 0.9, 0.5]
   \<and> fst (rerank_chunks demo_services ''q'' pool3 2 []) = [matched ''p1'' 0.9, matched ''p2'' 0.5]
   \<and> fst (rerank_chunks silent_services ''q'' pool3 2 []) = [matched ''p1'' 0.9, matched ''p2'' 0.5]"
  using rerank_fallback [of 2 pool3 demo_services "[]" "''q''"]
    rerank_fallback [of 2 pool3 silent_services "[]" "''q''"]
  by (simp add: pool3_fallback pool3_silent)
     (simp add: pool3_def demo_services_def silent_services_def matched_def no_completion_def)

text \<open>
  C10. For \<open>top_k \<ge> 0\<close> and whatever the ranking call answers, \<open>rerank_chunks\<close> returns
  exactly \<open>min(top_k, len(chunks))\<close> chunks, and they are chunks of the pool, none taken
  more often than the pool holds it.
\<close>

theorem rerank_chunks_selection:
  assumes "0 \<le> top_k"
  shows "length (fst (rerank_chunks svc question chunks top_k tr)) = min (nat top_k) (length chunks)
       \<and> mset (fst (rerank_chunks svc question chunks top_k tr)) \<subseteq># mset chunks"
proof (cases "int (length chunks) \<le> top_k")
  case True
  then show ?thesis by (simp add: rerank_chunks_def slice_to_all)
next
  case False
  then have big: "top_k < int (length chunks)" by simp
  show ?thesis
  proof (cases "no_completion (chat_create svc tr (rerank_request question chunks top_k))")
    case True
    have "fst (rerank_chunks svc question chunks top_k tr) = take (nat top_k) (sorted_by_score chunks)"
      using rerank_chunks_failed[OF True big] assms by (simp add: slice_to_nonneg)
    moreover have "mset (take (nat top_k) (sorted_by_score chunks)) \<subseteq># mset chunks"
      using mset_take_subset[of "nat top_k" "sorted_by_score chunks"] by (simp add: sorted_by_score_def)
    moreover have "length (sorted_by_score chunks) = length chunks" by (simp add: sorted_by_score_def)
    ultimately show ?thesis using big assms by simp
  next
    case False
    with no_completion_cases obtain content where
      reply: "chat_create svc tr (rerank_request question chunks top_k) = Inr (Some content)" by blast
    from rerank_chunks_parsed[OF reply big assms] obtain js where
      js: "fst (rerank_chunks svc question chunks top_k tr) = map (\<lambda>i. chunks ! i) js"
        "distinct js" "\<forall>i \<in> set js. i < length chunks" "length js = nat top_k" by blast
    show ?thesis using js mset_map_nth_subset[OF js(2,3)] big assms by simp
  qed
qed

text \<open>
  The reply \<open>2, 7, 2\<close> for a pool of three and \<open>top_k = 2\<close>: index 2 is taken, 7 is out of
  range, the second 2 is a repetition, and the padding adds index 0.
\<close>

theorem rerank_chunks_selection_witness:
  "(0::int) \<le> 2
   \<and> fst (rerank_chunks ranking_services ''q'' pool3 2 []) = [matched ''p2'' 0.5, matched ''p0'' 0.2]
   \<and> length (fst (rerank_chunks ranking_services ''q'' pool3 2 [])) = min (nat 2) (length pool3)
   \<and> mset (fst (rerank_chunks ranking_services ''q'' pool3 2 [])) \<subseteq># mset pool3"
  using rerank_chunks_selection [of 2 ranking_services "''q''" pool3 "[]"]
  by (simp add: pool3_ranked)

subsection \<open>The context budget\<close>

lemma length_truncated:
  assumes "100 < remaining"
  shows "int (length (rsplit1_head CHR '' '' (slice_to remaining snippet) @ ''...'')) \<le> remaining + 3"
proof -
  have "length (slice_to remaining snippet) \<le> nat remaining"
    using assms by (simp add: slice_to_def)
  with length_rsplit1_head[of "CHR '' ''" "slice_to remaining snippet"]
  have "length (rsplit1_head CHR '' '' (slice_to remaining snippet)) \<le> nat remaining" by linarith
  then show ?thesis using assms by simp
qed

text \<open>
  The loop's invariant: \<open>total_length\<close> bounds the characters of the accepted snippets
  and stays within the budget; a truncated snippet, always the last, adds at most the
  remaining budget and the three dots.
\<close>

lemma context_loop_total:
  "int (sum_list (map length parts)) \<le> tot \<Longrightarrow> tot \<le> mx \<Longrightarrow>
   int (sum_list (map length (context_loop chunks mx parts tot))) \<le> mx + 3"
proof (induction chunks mx parts tot rule: context_loop.induct)
  case (1 mx parts tot)
  then show ?case by simp
next
  case (2 c chunks mx parts tot)
  show ?case
  proof (cases "strip (chunk_text c) = []")
    case True
    with 2 show ?thesis by simp
  next
    case nonblank: False
    let ?snippet = "snippet_of c"
    show ?thesis
    proof (cases "tot + int (length ?snippet) > mx")
      case over: True
      show ?thesis
      proof (cases "mx - tot > 100")
        case True
        from length_truncated[OF True, of ?snippet] "2.prems"(1)
        show ?thesis using nonblank over True by (simp add: Let_def)
      next
        case False
        with "2.prems" show ?thesis using nonblank over by (simp add: Let_def)
      qed
    next
      case fits: False
      show ?thesis
      proof (cases "tot + int (length ?snippet) \<ge> mx")
        case True
        with "2.prems" fits show ?thesis using nonblank by (simp add: Let_def)
      next
        case False
        have a: "int (sum_list (map length (parts @ [?snippet]))) \<le> tot + int (length ?snippet)"
          using "2.prems"(1) by simp
        have b: "tot + int (length ?snippet) \<le> mx" using fits by simp
        from "2.IH"(2)[OF nonblank refl _ refl refl _ a b] fits False nonblank
        show ?thesis by (simp add: Let_def)
      qed
    qed
  qed
qed

lemma context_loop_length:
  "length (context_loop chunks mx parts tot) \<le> length parts + length chunks"
  by (induction chunks mx parts tot rule: context_loop.induct) (auto simp: Let_def)

lemma short_snippet: "snippet_of (short_chunk i) = ''[A] x''"
  by (simp add: short_chunk_def snippet_of_def chunk_text_def chunk_source_def dict_get_def
       upper_def upper_char_def)

lemma short_nonblank: "strip (chunk_text (short_chunk i)) \<noteq> []"
  by (simp add: short_chunk_def chunk_text_def dict_get_def strip_def strip_with_def is_space_def)

lemma budget_parts: "context_loop budget_chunks 15 [] 0 = [''[A] x'', ''[A] x'', ''[A] x'']"
  by (simp add: budget_chunks_def short_snippet short_nonblank Let_def)

lemma budget_context:
  "build_context budget_chunks 15 =
     ''[A] x'' @ newline @ newline @ ''[A] x'' @ newline @ newline @ ''[A] x''"
  by (simp add: build_context_def budget_parts)

text \<open>
  C2 as stated fails: \<open>total_length\<close> counts the snippets, not the blank lines that
  \<open>"\n\n".join\<close> puts between them. Three chunks whose snippets are \<open>[A] x\<close>, five
  characters each, fill a budget of 15 exactly; the context returned has 19 characters,
  four more than the budget and one more than budget plus suffix.
\<close>

theorem build_context_budget_counterexample:
  "\<not> int (length (build_context budget_chunks 15)) \<le> 15 + 3"
  by (simp add: budget_context newline_def)

text \<open>
  C2 as amended. For a budget \<open>max_length \<ge> 0\<close>: the accepted snippets together have at
  most \<open>max_length + 3\<close> characters; the returned string has at most that many plus two
  for the separator before each snippet after the first; and there are no more snippets
  than chunks.
\<close>

theorem build_context_budget:
  assumes "0 \<le> max_length"
  shows "int (sum_list (map length (context_loop chunks max_length [] 0))) \<le> max_length + 3
       \<and> int (length (build_context chunks max_length))
           \<le> max_length + 3 + 2 * int (length (context_loop chunks max_length [] 0) - 1)
       \<and> length (context_loop chunks max_length [] 0) \<le> length chunks"
proof -
  have a: "int (sum_list (map length (context_loop chunks max_length [] 0))) \<le> max_length + 3"
    by (rule context_loop_total) (use assms in simp_all)
  have b: "length (context_loop chunks max_length [] 0) \<le> length chunks"
    using context_loop_length[of chunks max_length "[]" 0] by simp
  show ?thesis using a b by (simp add: build_context_def length_join newline_def)
qed

theorem build_context_budget_witness:
  "(0::int) \<le> 15
   \<and> length (build_context budget_chunks 15) = 19
   \<and> length (context_loop budget_chunks 15 [] 0) = 3
   \<and> int (length (build_context budget_chunks 15))
       \<le> 15 + 3 + 2 * int (length (context_loop budget_chunks 15 [] 0) - 1)"
  using build_context_budget [of 15 budget_chunks]
  by (simp add: budget_context budget_parts newline_def)

subsection \<open>Query expansion\<close>

text \<open>
  What holds of the expansion for every response, for a set iteration order that lists
  each element once and \<open>n \<ge> 0\<close>: the list has no repetition and at most \<open>n + 1\<close>
  entries, and it is the question alone when the generation call fails.
\<close>

lemma generate_alternative_queries_shape:
  assumes "valid_set_order (set_order svc)" and "0 \<le> n"
  shows "distinct (fst (generate_alternative_queries svc question n tr))
       \<and> length (fst (generate_alternative_queries svc question n tr)) \<le> nat n + 1
       \<and> (no_completion (chat_create svc tr (expansion_request question n))
            \<longrightarrow> fst (generate_alternative_queries svc question n tr) = [question])"
  using assms
  by (auto simp: generate_alternative_queries_def call_chat_def valid_set_order_def slice_to_def Let_def
       no_completion_def split: sum.splits option.splits)

text \<open>
  The original question is kept whenever the set built from it and the variations has at
  most \<open>n + 1\<close> elements, as it has when the model returns the \<open>n\<close> lines it was asked for.
\<close>

lemma generate_alternative_queries_keeps_question:
  assumes "valid_set_order (set_order svc)"
    and "chat_create svc tr (expansion_request question n) = Inr (Some content)"
    and "int (card (set (question # parse_variations (strip content)))) \<le> n + 1"
  shows "question \<in> set (fst (generate_alternative_queries svc question n tr))"
proof (cases "strip question = []")
  case True
  then show ?thesis by (simp add: generate_alternative_queries_def)
next
  case False
  let ?xs = "question # parse_variations (strip content)"
  from assms(1) have d: "distinct (set_order svc ?xs)" and s: "set (set_order svc ?xs) = set ?xs"
    by (auto simp: valid_set_order_def)
  from d s have "length (set_order svc ?xs) = card (set ?xs)" by (metis distinct_card)
  with assms(3) have "slice_to (n + 1) (set_order svc ?xs) = set_order svc ?xs"
    by (simp add: slice_to_all)
  with s False assms(2) show ?thesis
    by (simp add: generate_alternative_queries_def call_chat_def)
qed

text \<open>
  C9 fails on the code where the response has more than \<open>n\<close> distinct lines: the cut
  \<open>[:n+1]\<close> is made on \<open>list(set(...))\<close>, whose order is the set's, not the list's, so
  the original question is cut whenever the set iterates it after \<open>n + 1\<close> others. Here
  the model answers with a heading and three variations and the set yields the question
  last.
\<close>

theorem generate_alternative_queries_drops_original:
  "valid_set_order (set_order listing_services)
   \<and> chat_create listing_services [] (expansion_request ''q'' 3)
        = Inr (Some (''Sure:'' @ newline @ ''- a'' @ newline @ ''- b'' @ newline @ ''- c''))
   \<and> fst (generate_alternative_queries listing_services ''q'' 3 []) = [''c'', ''b'', ''a'', ''Sure:'']
   \<and> ''q'' \<notin> set (fst (generate_alternative_queries listing_services ''q'' 3 []))"
  by (simp add: valid_set_order_def listing_services_def demo_services_def generate_alternative_queries_def
       call_chat_def strip_q parse_variations_def strip_def strip_chars_def strip_with_def is_space_def
       newline_def slice_to_def)

subsection \<open>Answering\<close>

text \<open>
  C6. For a question that is empty or all whitespace, \<open>answer_question\<close> returns the
  fixed message and the state it was given: the call log has no new call and the chat
  history no new turn, whatever the services are.
\<close>

theorem answer_question_empty:
  "list_all is_space question \<Longrightarrow>
   answer_question svc question s = (Some ''Please provide a valid question.'', s)"
  by (simp add: answer_question_def msg_invalid_def strip_blank)

theorem answer_question_empty_witness:
  "list_all is_space ''  '' \<and> list_all is_space ''''
   \<and> answer_question demo_services ''  '' session0 = (Some ''Please provide a valid question.'', session0)
   \<and> calls (snd (answer_question demo_services '''' session0)) = []"
  using answer_question_empty [of "''  ''" demo_services session0]
    answer_question_empty [of "''''" demo_services session0]
  by (simp add: is_space_def session0_def)

text \<open>Every stage before the synthesis call extends the call log quietly.\<close>

lemma extends_refl: "extends_quietly tr tr"
  by (simp add: extends_quietly_def)

lemma extends_trans: "extends_quietly a b \<Longrightarrow> extends_quietly b c \<Longrightarrow> extends_quietly a c"
  by (auto simp: extends_quietly_def)

lemma extends_snoc: "\<not> synthesis_call c \<Longrightarrow> extends_quietly tr (tr @ [c])"
  by (simp add: extends_quietly_def)

lemma extends_embed: "extends_quietly tr (snd (call_embed svc q tr))"
  by (simp add: call_embed_def extends_snoc synthesis_call_def)

lemma extends_index: "extends_quietly tr (snd (call_index svc name qvec k tr))"
  by (simp add: call_index_def extends_snoc synthesis_call_def)

lemma extends_expansion: "extends_quietly tr (snd (generate_alternative_queries svc question n tr))"
  by (auto simp: generate_alternative_queries_def call_chat_def extends_refl extends_snoc
       synthesis_call_def expansion_request_def split: sum.splits option.splits)

lemma extends_query_indexes: "extends_quietly tr (snd (query_indexes svc qvec k names d tr))"
proof (induction names arbitrary: d tr)
  case Nil
  then show ?case by (simp add: extends_refl)
next
  case (Cons name names)
  obtain r tr' where c: "call_index svc name qvec k tr = (r, tr')" by (cases "call_index svc name qvec k tr")
  have e: "extends_quietly tr tr'" using extends_index[of tr svc name qvec k] c by simp
  show ?case
  proof (cases r)
    case (Inl msg)
    with c e show ?thesis by simp
  next
    case (Inr matches)
    with c extends_trans[OF e Cons.IH] show ?thesis by simp
  qed
qed

lemma extends_retrieve_queries: "extends_quietly tr (snd (retrieve_queries svc k qs d tr))"
proof (induction qs arbitrary: d tr)
  case Nil
  then show ?case by (simp add: extends_refl)
next
  case (Cons q qs)
  obtain r tr' where c: "call_embed svc q tr = (r, tr')" by (cases "call_embed svc q tr")
  have e: "extends_quietly tr tr'" using extends_embed[of tr svc q] c by simp
  show ?case
  proof (cases r)
    case (Inl msg)
    with c extends_trans[OF e Cons.IH] show ?thesis by simp
  next
    case (Inr qvec)
    obtain d' tr'' where i: "query_indexes svc qvec k (indexes svc) d tr' = (d', tr'')"
      by (cases "query_indexes svc qvec k (indexes svc) d tr'")
    have "extends_quietly tr' tr''" using extends_query_indexes[of tr' svc qvec k "indexes svc" d] i by simp
    from extends_trans[OF extends_trans[OF e this] Cons.IH] c Inr i show ?thesis by simp
  qed
qed

lemma extends_retrieve: "extends_quietly tr (snd (multi_query_retrieve svc question k tr))"
proof (cases "strip question = []")
  case True
  then show ?thesis by (simp add: multi_query_retrieve_def extends_refl)
next
  case False
  obtain qs tr1 where g: "generate_alternative_queries svc question 3 tr = (qs, tr1)"
    by (cases "generate_alternative_queries svc question 3 tr")
  have a: "extends_quietly tr tr1" using extends_expansion[of tr svc question 3] g by simp
  obtain d tr2 where q: "retrieve_queries svc k qs [] tr1 = (d, tr2)"
    by (cases "retrieve_queries svc k qs [] tr1")
  have b: "extends_quietly tr1 tr2" using extends_retrieve_queries[of tr1 svc k qs "[]"] q by simp
  from extends_trans[OF a b] False g q show ?thesis
    by (simp add: multi_query_retrieve_def)
qed

lemma extends_link_indexes: "extends_quietly tr (snd (link_indexes svc qvec k names d tr))"
proof (induction names arbitrary: d tr)
  case Nil
  then show ?case by (simp add: extends_refl)
next
  case (Cons name names)
  obtain r tr' where c: "call_index svc name qvec k tr = (r, tr')" by (cases "call_index svc name qvec k tr")
  have e: "extends_quietly tr tr'" using extends_index[of tr svc name qvec k] c by simp
  show ?case
  proof (cases r)
    case (Inl msg)
    with c e show ?thesis by simp
  next
    case (Inr matches)
    with c extends_trans[OF e Cons.IH] show ?thesis by simp
  qed
qed

lemma extends_follow_links: "extends_quietly tr (snd (follow_links svc k vs d tr))"
proof (induction vs arbitrary: d tr)
  case Nil
  then show ?case by (simp add: extends_refl)
next
  case (Cons v vs)
  obtain r tr' where c: "call_embed svc v tr = (r, tr')" by (cases "call_embed svc v tr")
  have e: "extends_quietly tr tr'" using extends_embed[of tr svc v] c by simp
  show ?case
  proof (cases r)
    case (Inl msg)
    with c extends_trans[OF e Cons.IH] show ?thesis by simp
  next
    case (Inr qvec)
    obtain d' tr'' where i: "link_indexes svc qvec k (indexes svc) d tr' = (d', tr'')"
      by (cases "link_indexes svc qvec k (indexes svc) d tr'")
    have "extends_quietly tr' tr''" using extends_link_indexes[of tr' svc qvec k "indexes svc" d] i by simp
    from extends_trans[OF extends_trans[OF e this] Cons.IH] c Inr i show ?thesis by simp
  qed
qed

lemma extends_expand_chunks: "extends_quietly tr (snd (expand_chunks svc k cs d tr))"
proof (induction cs arbitrary: d tr)
  case Nil
  then show ?case by (simp add: extends_refl)
next
  case (Cons c cs)
  obtain d' tr' where f: "follow_links svc k (slice_to 3 (related_keys c)) d tr = (d', tr')"
    by (cases "follow_links svc k (slice_to 3 (related_keys c)) d tr")
  have "extends_quietly tr tr'"
    using extends_follow_links[of tr svc k "slice_to 3 (related_keys c)" d] f by simp
  from extends_trans[OF this Cons.IH] f show ?case by simp
qed

lemma extends_expand: "extends_quietly tr (snd (expand_with_links svc chunks k tr))"
proof (cases "chunks = []")
  case True
  then show ?thesis by (simp add: expand_with_links_def extends_refl)
next
  case False
  let ?d = "foldl (\<lambda>d c. AList.update (cid c) c d) [] chunks"
  obtain d' tr' where x: "expand_chunks svc k chunks ?d tr = (d', tr')"
    by (cases "expand_chunks svc k chunks ?d tr")
  have "extends_quietly tr tr'" using extends_expand_chunks[of tr svc k chunks ?d] x by simp
  with False x show ?thesis by (simp add: expand_with_links_def)
qed

lemma extends_rerank: "extends_quietly tr (snd (rerank_chunks svc question chunks top_k tr))"
  by (auto simp: rerank_chunks_def call_chat_def extends_refl extends_snoc synthesis_call_def
       rerank_request_def Let_def split: sum.splits option.splits)

lemma synthesis_call_answer: "synthesis_call (ChatCreate (answer_request question ctx))"
  by (simp add: synthesis_call_def answer_request_def)

text \<open>
  The two ways the body of the \<open>try\<close> ends: before the synthesis call, with one of two
  fixed messages, or with the synthesis call as the last call of the log, and then with
  what that call gave.
\<close>

lemma answer_body_cases:
  "(extends_quietly (calls s) (calls (snd (answer_body svc question s)))
      \<and> fst (answer_body svc question s) \<in> {Inr (Some msg_nothing_found), Inr (Some msg_no_content)})
   \<or> (\<exists>tr ctx. extends_quietly (calls s) tr
         \<and> calls (snd (answer_body svc question s)) = tr @ [ChatCreate (answer_request question ctx)]
         \<and> fst (answer_body svc question s) = chat_create svc tr (answer_request question ctx))"
proof -
  obtain cands tr1 where r: "multi_query_retrieve svc question 5 (calls s) = (cands, tr1)"
    by (cases "multi_query_retrieve svc question 5 (calls s)")
  obtain exp tr2 where x: "expand_with_links svc cands 3 tr1 = (exp, tr2)"
    by (cases "expand_with_links svc cands 3 tr1")
  obtain top tr3 where k: "rerank_chunks svc question exp 5 tr2 = (top, tr3)"
    by (cases "rerank_chunks svc question exp 5 tr2")
  have e1: "extends_quietly (calls s) tr1" using extends_retrieve[of "calls s" svc question 5] r by simp
  have "extends_quietly tr1 tr2" using extends_expand[of tr1 svc cands 3] x by simp
  with e1 have e2: "extends_quietly (calls s) tr2" by (rule extends_trans)
  have "extends_quietly tr2 tr3" using extends_rerank[of tr2 svc question exp 5] k by simp
  with e2 have e3: "extends_quietly (calls s) tr3" by (rule extends_trans)
  show ?thesis
  proof (cases "cands = []")
    case True
    with r e1 show ?thesis by (simp add: answer_body_def)
  next
    case full: False
    show ?thesis
    proof (cases "strip (build_context top 8000) = []")
      case True
      with full r x k e3 show ?thesis by (simp add: answer_body_def)
    next
      case False
      let ?ctx = "build_context top 8000"
      have "calls (snd (answer_body svc question s)) = tr3 @ [ChatCreate (answer_request question ?ctx)]
            \<and> fst (answer_body svc question s) = chat_create svc tr3 (answer_request question ?ctx)"
        using full False r x k
        by (simp add: answer_body_def call_chat_def Let_def split: sum.splits)
      with e3 show ?thesis by blast
    qed
  qed
qed

text \<open>With the embedding service down no variant retrieves anything.\<close>

lemma retrieve_queries_offline:
  "\<forall>tr q. isl (embed_query svc tr q) \<Longrightarrow> fst (retrieve_queries svc k qs d tr) = d"
proof (induction qs arbitrary: d tr)
  case Nil
  then show ?case by simp
next
  case (Cons q qs)
  from Cons.prems have "isl (embed_query svc tr q)" by blast
  then obtain e where "embed_query svc tr q = Inl e" by (cases "embed_query svc tr q") auto
  with Cons.IH[OF Cons.prems] show ?case by (simp add: call_embed_def)
qed

lemma multi_query_retrieve_offline:
  "\<forall>tr q. isl (embed_query svc tr q) \<Longrightarrow> fst (multi_query_retrieve svc question k tr) = []"
  using retrieve_queries_offline[of svc k _ "[]"]
  by (auto simp: multi_query_retrieve_def split: prod.splits) (metis fst_conv)

lemma demo_chat: "chat_create demo_services tr req = Inl ''timeout''"
  by (simp add: demo_services_def)

lemma demo_expand: "expand_with_links svc [demo_hit] 3 tr = ([demo_hit], tr)"
  by (simp add: expand_with_links_def related_keys_def slice_to_def demo_hit_def)

lemma demo_rerank: "rerank_chunks svc question [demo_hit] 5 tr = ([demo_hit], tr)"
  by (simp add: rerank_chunks_def slice_to_def)

lemma demo_context: "build_context [demo_hit] 8000 = ''[CRIMINAL] No person shall be deprived of his life''"
  by (simp add: build_context_def demo_hit_def chunk_text_def chunk_source_def dict_get_def snippet_of_def
       strip_def strip_with_def is_space_def upper_def upper_char_def Let_def)

lemma demo_answer:
  "answer_question demo_services ''q'' session0 =
     (Some (error_prefix @ ''timeout''),
      \<lparr>calls = [ChatCreate (expansion_request ''q'' 3), EmbedQuery ''q'',
                IndexQuery ''constitution'' [1, 0] 5, IndexQuery ''criminal'' [1, 0] 5,
                ChatCreate (answer_request ''q'' ''[CRIMINAL] No person shall be deprived of his life'')],
       chat_history = []\<rparr>)"
  by (simp add: answer_question_def answer_body_def session0_def demo_retrieve demo_expand demo_rerank
       demo_context call_chat_def demo_chat strip_def strip_with_def is_space_def)

lemma silent_chat: "chat_create silent_services tr req = Inr None"
  by (simp add: silent_services_def)

lemma silent_retrieve:
  "multi_query_retrieve silent_services ''q'' 5 [] =
    ([demo_hit],
     [ChatCreate (expansion_request ''q'' 3), EmbedQuery ''q'', IndexQuery ''constitution'' [1, 0] 5,
      IndexQuery ''criminal'' [1, 0] 5])"
  by (simp add: multi_query_retrieve_def generate_alternative_queries_def call_chat_def call_embed_def
      call_index_def silent_services_def demo_services_def strip_q merge_match_def tag_source_def
      matched_def demo_hit_def)

text \<open>
  A synthesis response without text: \<open>answer_question\<close> returns \<open>None\<close>, not a string,
  and records \<open>None\<close> as the assistant's turn. The callers in \<open>evaluate.py\<close> and
  \<open>debug_evaluate.py\<close> guard against it with \<open>(generated_answer or "")\<close>.
\<close>

lemma silent_answer:
  "fst (answer_question silent_services ''q'' session0) = None
   \<and> chat_history (snd (answer_question silent_services ''q'' session0))
       = [(''user'', Some ''q''), (''assistant'', None)]"
  by (simp add: answer_question_def answer_body_def session0_def silent_retrieve demo_expand demo_rerank
       demo_context call_chat_def silent_chat strip_def strip_with_def is_space_def)

text \<open>
  A failure inside a stage that the stage absorbs does not reach the top level: with the
  embedding service down, retrieval returns nothing and the answer is the fixed message
  for that, not an error string.
\<close>

lemma offline_answer: "fst (answer_question offline_services ''q'' session0) = Some msg_nothing_found"
  by (simp add: answer_question_def answer_body_def session0_def multi_query_retrieve_def
       generate_alternative_queries_def call_chat_def call_embed_def offline_services_def
       demo_services_def strip_q)

text \<open>
  C5 as stated fails, in two ways. A failure of the retrieval stage is caught inside the
  stage, by design: with every embedding call failing the answer is the fixed message
  for no results, which does not start with the error prefix. And a synthesis response
  whose content is \<open>None\<close> is returned as it is: the answer is \<open>None\<close>, not a string.
\<close>

theorem answer_question_failure_counterexample:
  "embed_query offline_services [ChatCreate (expansion_request ''q'' 3)] ''q'' = Inl ''connection refused''
   \<and> fst (answer_question offline_services ''q'' session0) = Some msg_nothing_found
   \<and> take (length error_prefix) msg_nothing_found \<noteq> error_prefix
   \<and> chat_create silent_services
        [ChatCreate (expansion_request ''q'' 3), EmbedQuery ''q'', IndexQuery ''constitution'' [1, 0] 5,
         IndexQuery ''criminal'' [1, 0] 5]
        (answer_request ''q'' ''[CRIMINAL] No person shall be deprived of his life'') = Inr None
   \<and> fst (answer_question silent_services ''q'' session0) = None"
  using offline_answer silent_answer
  by (simp add: offline_services_def silent_services_def demo_services_def msg_nothing_found_def
       error_prefix_def)

text \<open>
  C5 as amended. Whatever the services do, \<open>answer_question\<close> returns, and in one of two
  ways. Either no synthesis call is made, and the answer is one of the three fixed
  messages. Or the synthesis call is the last call made, and the answer follows it:
  when the call raises \<open>e\<close>, the exception is caught and the answer is the error prefix
  followed by \<open>e\<close>; when it returns a text, the answer is that text. Failures of the
  calls before are absorbed by their stages: with every embedding call failing, the
  answer to a question that is not blank is the fixed message for no results. What is
  returned for a synthesis response without text is left open.
\<close>

theorem answer_question_failures:
  "((extends_quietly (calls s) (calls (snd (answer_question svc question s)))
       \<and> fst (answer_question svc question s)
            \<in> {Some msg_invalid, Some msg_nothing_found, Some msg_no_content})
     \<or> (\<exists>tr ctx. extends_quietly (calls s) tr
           \<and> calls (snd (answer_question svc question s)) = tr @ [ChatCreate (answer_request question ctx)]
           \<and> (\<forall>e. chat_create svc tr (answer_request question ctx) = Inl e
                  \<longrightarrow> fst (answer_question svc question s) = Some (error_prefix @ e))
           \<and> (\<forall>a. chat_create svc tr (answer_request question ctx) = Inr (Some a)
                  \<longrightarrow> fst (answer_question svc question s) = Some a)))
   \<and> ((\<forall>tr q. isl (embed_query svc tr q)) \<and> strip question \<noteq> []
        \<longrightarrow> fst (answer_question svc question s) = Some msg_nothing_found)"
proof -
  have absorbed: "(\<forall>tr q. isl (embed_query svc tr q)) \<and> strip question \<noteq> []
        \<longrightarrow> fst (answer_question svc question s) = Some msg_nothing_found"
  proof
    assume h: "(\<forall>tr q. isl (embed_query svc tr q)) \<and> strip question \<noteq> []"
    then have "fst (multi_query_retrieve svc question 5 (calls s)) = []"
      using multi_query_retrieve_offline by blast
    then obtain tr1 where "multi_query_retrieve svc question 5 (calls s) = ([], tr1)"
      by (cases "multi_query_retrieve svc question 5 (calls s)") simp
    with h show "fst (answer_question svc question s) = Some msg_nothing_found"
      by (simp add: answer_question_def answer_body_def)
  qed
  have ways: "(extends_quietly (calls s) (calls (snd (answer_question svc question s)))
       \<and> fst (answer_question svc question s)
            \<in> {Some msg_invalid, Some msg_nothing_found, Some msg_no_content})
     \<or> (\<exists>tr ctx. extends_quietly (calls s) tr
           \<and> calls (snd (answer_question svc question s)) = tr @ [ChatCreate (answer_request question ctx)]
           \<and> (\<forall>e. chat_create svc tr (answer_request question ctx) = Inl e
                  \<longrightarrow> fst (answer_question svc question s) = Some (error_prefix @ e))
           \<and> (\<forall>a. chat_create svc tr (answer_request question ctx) = Inr (Some a)
                  \<longrightarrow> fst (answer_question svc question s) = Some a))"
  proof (cases "strip question = []")
    case True
    then show ?thesis by (simp add: answer_question_def extends_refl)
  next
    case False
    then have aq: "answer_question svc question s =
        (case fst (answer_body svc question s) of Inl e \<Rightarrow> Some (error_prefix @ e) | Inr a \<Rightarrow> a,
         snd (answer_body svc question s))"
      by (simp add: answer_question_def split: prod.splits sum.splits)
    from answer_body_cases[of s svc question] show ?thesis
    proof
      assume "extends_quietly (calls s) (calls (snd (answer_body svc question s)))
        \<and> fst (answer_body svc question s) \<in> {Inr (Some msg_nothing_found), Inr (Some msg_no_content)}"
      then show ?thesis unfolding aq by auto
    next
      assume "\<exists>tr ctx. extends_quietly (calls s) tr
         \<and> calls (snd (answer_body svc question s)) = tr @ [ChatCreate (answer_request question ctx)]
         \<and> fst (answer_body svc question s) = chat_create svc tr (answer_request question ctx)"
      then obtain tr ctx where t: "extends_quietly (calls s) tr"
        "calls (snd (answer_body svc question s)) = tr @ [ChatCreate (answer_request question ctx)]"
        "fst (answer_body svc question s) = chat_create svc tr (answer_request question ctx)" by blast
      have "extends_quietly (calls s) tr
           \<and> calls (snd (answer_question svc question s)) = tr @ [ChatCreate (answer_request question ctx)]
           \<and> (\<forall>e. chat_create svc tr (answer_request question ctx) = Inl e
                  \<longrightarrow> fst (answer_question svc question s) = Some (error_prefix @ e))
           \<and> (\<forall>a. chat_create svc tr (answer_request question ctx) = Inr (Some a)
                  \<longrightarrow> fst (answer_question svc question s) = Some a)"
        unfolding aq using t by simp
      then show ?thesis by blast
    qed
  qed
  from ways absorbed show ?thesis by blast
qed

text \<open>
  The synthesis call times out after a successful retrieval: the answer is the error
  prefix followed by \<open>timeout\<close>. The embedding service is down: the answer is the fixed
  message for no results.
\<close>

theorem answer_question_failures_witness:
  "calls (snd (answer_question demo_services ''q'' session0)) =
     [ChatCreate (expansion_request ''q'' 3), EmbedQuery ''q'',
      IndexQuery ''constitution'' [1, 0] 5, IndexQuery ''criminal'' [1, 0] 5]
     @ [ChatCreate (answer_request ''q'' ''[CRIMINAL] No person shall be deprived of his life'')]
   \<and> chat_create demo_services
        [ChatCreate (expansion_request ''q'' 3), EmbedQuery ''q'',
         IndexQuery ''constitution'' [1, 0] 5, IndexQuery ''criminal'' [1, 0] 5]
        (answer_request ''q'' ''[CRIMINAL] No person shall be deprived of his life'') = Inl ''timeout''
   \<and> fst (answer_question demo_services ''q'' session0) = Some (error_prefix @ ''timeout'')
   \<and> isl (embed_query offline_services [] ''q'') \<and> strip ''q'' \<noteq> []
   \<and> fst (answer_question offline_services ''q'' session0) = Some msg_nothing_found"
  using answer_question_failures [of session0 demo_services "''q''"]
    answer_question_failures [of session0 offline_services "''q''"]
  by (simp add: demo_answer demo_chat strip_q offline_services_def)

end
